theory Spec2Isabelle
  imports Complex_Main
begin

section \<open>Vectors, Euler angles and poses\<close>

text \<open>
  \<^verbatim>\<open>mathutils.Vector\<close> and \<^verbatim>\<open>mathutils.Euler\<close> hold three floats. Coordinates and
  angles are modelled as real numbers, so every arithmetic step below is exact; a pose is
  the Python list \<^verbatim>\<open>[location, rotation_euler]\<close>. Poses, tasks and jobs are values here:
  two entries of a list are never the same Python object.
\<close>

type_synonym vec3 = "real \<times> real \<times> real"

type_synonym pose = "vec3 \<times> vec3"

fun vadd :: "vec3 \<Rightarrow> vec3 \<Rightarrow> vec3" where
  "vadd (a, b, c) (x, y, z) = (a + x, b + y, c + z)"

fun vsub :: "vec3 \<Rightarrow> vec3 \<Rightarrow> vec3" where
  "vsub (a, b, c) (x, y, z) = (a - x, b - y, c - z)"

fun smul :: "vec3 \<Rightarrow> real \<Rightarrow> vec3" where
  "smul (a, b, c) k = (a * k, b * k, c * k)"

fun vlength :: "vec3 \<Rightarrow> real" where
  "vlength (a, b, c) = sqrt (a * a + b * b + c * c)"

text \<open>\<^verbatim>\<open>Vector.normalized()\<close>: a zero vector stays as it is.\<close>

definition normalized :: "vec3 \<Rightarrow> vec3" where
  "normalized v = (if vlength v = 0 then v else smul v (1 / vlength v))"

text \<open>\<^verbatim>\<open>a.lerp(b, t)\<close>.\<close>

definition lerp :: "vec3 \<Rightarrow> vec3 \<Rightarrow> real \<Rightarrow> vec3" where
  "lerp a b t = vadd (smul a (1 - t)) (smul b t)"

text \<open>\<^verbatim>\<open>e[ax]\<close> and \<^verbatim>\<open>e[ax] = v\<close> for \<^verbatim>\<open>ax\<close> in \<^verbatim>\<open>range(3)\<close>.\<close>

fun getitem :: "vec3 \<Rightarrow> nat \<Rightarrow> real" where
  "getitem (x, y, z) ax = (if ax = 0 then x else if ax = 1 then y else z)"

fun setitem :: "vec3 \<Rightarrow> nat \<Rightarrow> real \<Rightarrow> vec3" where
  "setitem (x, y, z) ax v =
     (if ax = 0 then (v, y, z) else if ax = 1 then (x, v, z) else (x, y, v))"

section \<open>helpers.py: angular unwrapping\<close>

text \<open>Python's \<^verbatim>\<open>x % m\<close> on floats with a positive \<^verbatim>\<open>m\<close>: the result has the sign of \<^verbatim>\<open>m\<close>.\<close>

definition py_fmod :: "real \<Rightarrow> real \<Rightarrow> real" where
  "py_fmod x m = x - m * of_int \<lfloor>x / m\<rfloor>"

text \<open>
  Lines 22 to 26 of \<^verbatim>\<open>minimize_objects_angular_distance\<close>:
  \<^verbatim>\<open>
  diff = diff % (2*math.pi)
  if diff > math.pi:
      diff -= 2*math.pi
  elif diff < -math.pi:
      diff += 2*math.pi
  \<close>
\<close>

definition wrap_diff :: "real \<Rightarrow> real" where
  "wrap_diff d =
     (let diff = py_fmod d (2 * pi)
      in if diff > pi then diff - 2 * pi
         else if diff < - pi then diff + 2 * pi
         else diff)"

text \<open>The body of the inner loop, for pose \<open>i\<close> and axis \<open>ax\<close>; it updates \<^verbatim>\<open>objects[i][1][ax]\<close>.\<close>

definition unwrap_axis :: "nat \<Rightarrow> nat \<Rightarrow> pose list \<Rightarrow> pose list" where
  "unwrap_axis i ax objects =
     (let diff = getitem (snd (objects ! i)) ax - getitem (snd (objects ! (i - 1))) ax;
          diff = wrap_diff diff
      in objects[i := (fst (objects ! i),
                       setitem (snd (objects ! i)) ax
                         (getitem (snd (objects ! (i - 1))) ax + diff))])"

text \<open>\<^verbatim>\<open>for ax in range(3)\<close>.\<close>

definition unwrap_pose :: "nat \<Rightarrow> pose list \<Rightarrow> pose list" where
  "unwrap_pose i objects = fold (unwrap_axis i) [0, 1, 2] objects"

text \<open>\<^verbatim>\<open>for i in range(1, len(objects))\<close>; the list is returned after the updates.\<close>

definition minimize_objects_angular_distance :: "pose list \<Rightarrow> pose list" where
  "minimize_objects_angular_distance objects =
     fold unwrap_pose [1 ..< length objects] objects"

section \<open>helpers.py: ray casting and the point-in-mesh parity test\<close>

text \<open>The tuple \<^verbatim>\<open>(hit, location, normal, index)\<close> that \<^verbatim>\<open>Object.ray_cast\<close> returns.\<close>

record hit =
  hit_ok :: bool
  hit_location :: vec3
  hit_normal :: vec3
  hit_index :: int

text \<open>
  The host's ray cast against one object, \<^verbatim>\<open>object.ray_cast(a, b)\<close>, is an abstract
  deterministic function of its two vector arguments.
\<close>

type_synonym ray_cast = "vec3 \<Rightarrow> vec3 \<Rightarrow> hit"

text \<open>
  The \<^verbatim>\<open>while True\<close> loop of \<^verbatim>\<open>pointInsideMesh\<close> for one axis, from origin \<open>orig\<close> with
  \<open>count\<close> crossings so far. The loop has no bound, so the function is partial:
  \<open>None\<close> means that it never leaves the loop.
\<close>

partial_function (option) count_crossings ::
  "ray_cast \<Rightarrow> vec3 \<Rightarrow> vec3 \<Rightarrow> nat \<Rightarrow> nat option" where
  "count_crossings rc axis orig count =
     (if hit_index (rc orig (vadd orig (smul axis 10000))) = - 1 then Some count
      else count_crossings rc axis
             (vadd (hit_location (rc orig (vadd orig (smul axis 10000)))) (smul axis 0.00001))
             (count + 1))"

definition axes :: "vec3 list" where
  "axes = [(1, 0, 0), (0, 1, 0), (0, 0, 1)]"

text \<open>
  \<^verbatim>\<open>for axis in axes\<close> with its \<^verbatim>\<open>break\<close>: the value is the flag \<^verbatim>\<open>outside\<close> when the loop
  is left.
\<close>

fun axes_loop :: "ray_cast \<Rightarrow> vec3 \<Rightarrow> vec3 list \<Rightarrow> bool option" where
  "axes_loop rc point [] = Some False"
| "axes_loop rc point (axis # rest) =
     (case count_crossings rc axis point 0 of
        None \<Rightarrow> None
      | Some count \<Rightarrow> if count mod 2 = 0 then Some True else axes_loop rc point rest)"

definition pointInsideMesh :: "ray_cast \<Rightarrow> vec3 \<Rightarrow> bool option" where
  "pointInsideMesh rc point = map_option Not (axes_loop rc point axes)"

text \<open>
  The origins of the successive ray casts of one axis: each restart is just past the
  location the previous cast reported.
\<close>

fun restart_origin :: "ray_cast \<Rightarrow> vec3 \<Rightarrow> vec3 \<Rightarrow> nat \<Rightarrow> vec3" where
  "restart_origin rc axis orig 0 = orig"
| "restart_origin rc axis orig (Suc n) =
     restart_origin rc axis
       (vadd (hit_location (rc orig (vadd orig (smul axis 10000)))) (smul axis 0.00001)) n"

definition cast_misses :: "ray_cast \<Rightarrow> vec3 \<Rightarrow> vec3 \<Rightarrow> nat \<Rightarrow> bool" where
  "cast_misses rc axis orig n =
     (hit_index (rc (restart_origin rc axis orig n)
                    (vadd (restart_origin rc axis orig n) (smul axis 10000))) = - 1)"

section \<open>Exceptions and host objects\<close>

text \<open>
  \<open>HostError\<close> stands for any exception that a call into the host (\<^verbatim>\<open>bpy\<close>, \<^verbatim>\<open>bmesh\<close>)
  raises. A method that mutates \<^verbatim>\<open>self\<close> and may raise yields the state it leaves behind in
  both cases.
\<close>

datatype error =
  ValueError | NotImplementedError | ZeroDivisionError | AssertionError | AttributeError
  | HostError

datatype 's outcome = Returns 's | Raises error 's

text \<open>An edge of a triangulated mesh copy: the positions and normals of its two vertices.\<close>

record edge =
  v1_co :: vec3
  v1_normal :: vec3
  v2_co :: vec3
  v2_normal :: vec3

text \<open>
  What the host calls of \<^verbatim>\<open>ContourTrace.get_contour\<close> do for a plane: no cut, a slice
  object with the given vertices (after subdivision), an exception before the slice is
  stored in \<^verbatim>\<open>self.contour\<close>, or an exception after it was stored.
\<close>

datatype slice_result =
  NoCut | Slice "vec3 list" | SliceFails error | SubdivisionFails "vec3 list" error

text \<open>
  A \<^verbatim>\<open>bpy.types.Object\<close>. Its name is unique in \<^verbatim>\<open>bpy.data.objects\<close>, so two different
  objects are different records. \<open>obj_ray_cast\<close> is \<^verbatim>\<open>object.ray_cast(a, b)\<close>,
  \<open>obj_bisect\<close> the result of slicing the object's mesh with the plane through its first
  argument with its second argument as normal, and \<open>obj_edges\<close> the edges of the
  transformed, triangulated copy that \<^verbatim>\<open>bmesh_copy_from_object\<close> builds from it.
\<close>

record blender_object =
  obj_name :: string
  obj_type :: string
  obj_ray_cast :: ray_cast
  obj_bisect :: "vec3 \<Rightarrow> vec3 \<Rightarrow> slice_result"
  obj_edges :: "edge list"

section \<open>helpers.py: the mesh intersection test\<close>

definition bmesh_copy_from_object :: "blender_object \<Rightarrow> error + edge list" where
  "bmesh_copy_from_object obj =
     (if obj_type obj \<noteq> ''MESH'' then Inl AssertionError else Inr (obj_edges obj))"

definition EPS_NORMAL :: real where
  "EPS_NORMAL = 0.000001"

definition EPS_CENTER :: real where
  "EPS_CENTER = 0.01"

definition calc_length :: "edge \<Rightarrow> real" where
  "calc_length ed = vlength (vsub (v2_co ed) (v1_co ed))"

text \<open>
  The body of \<^verbatim>\<open>for ed in bm.edges\<close>: the edge is pulled towards its midpoint and pushed
  along the averaged normal, and a ray of the edge's length is cast along it; the value is
  \<^verbatim>\<open>index != -1\<close>. The first argument is \<^verbatim>\<open>obj_tmp.ray_cast\<close> with its \<^verbatim>\<open>distance\<close>.
\<close>

definition edge_hits :: "(vec3 \<Rightarrow> vec3 \<Rightarrow> real \<Rightarrow> hit) \<Rightarrow> edge \<Rightarrow> bool" where
  "edge_hits ray_cast ed =
     (let co_1 = v1_co ed;
          co_2 = v2_co ed;
          co_mid = smul (vadd co_1 co_2) 0.5;
          no_mid = smul (normalized (vadd (v1_normal ed) (v2_normal ed))) EPS_NORMAL;
          co_1 = vadd (lerp co_1 co_mid EPS_CENTER) no_mid;
          co_2 = vadd (lerp co_2 co_mid EPS_CENTER) no_mid
      in hit_index (ray_cast co_1 (normalized (vsub co_2 co_1)) (calc_length ed)) \<noteq> - 1)"

fun edges_loop :: "(vec3 \<Rightarrow> vec3 \<Rightarrow> real \<Rightarrow> hit) \<Rightarrow> edge list \<Rightarrow> bool" where
  "edges_loop ray_cast [] = False"
| "edges_loop ray_cast (ed # eds) = (if edge_hits ray_cast ed then True else edges_loop ray_cast eds)"

text \<open>
  \<open>mesh_ray_cast bm2\<close> is the ray cast of the temporary object the host builds from the
  mesh copy \<open>bm2\<close>. The function starts with \<^verbatim>\<open>assert(obj != obj2)\<close>.
\<close>

definition bmesh_check_intersect_objects ::
  "(edge list \<Rightarrow> vec3 \<Rightarrow> vec3 \<Rightarrow> real \<Rightarrow> hit) \<Rightarrow> blender_object \<Rightarrow> blender_object \<Rightarrow> error + bool" where
  "bmesh_check_intersect_objects mesh_ray_cast obj obj2 =
     (if obj = obj2 then Inl AssertionError
      else case bmesh_copy_from_object obj of
        Inl e \<Rightarrow> Inl e
      | Inr bm \<Rightarrow>
         (case bmesh_copy_from_object obj2 of
            Inl e \<Rightarrow> Inl e
          | Inr bm2 \<Rightarrow>
             (let (bm, bm2) = (if length bm > length bm2 then (bm2, bm) else (bm, bm2))
              in Inr (edges_loop (mesh_ray_cast bm2) bm))))"

text \<open>
  What the host documents of \<^verbatim>\<open>Object.ray_cast\<close>: a hit it reports lies on the ray, not
  further from the origin than \<^verbatim>\<open>distance\<close> times the direction, and on the mesh, hence
  between its vertices in every coordinate. \<open>mesh_verts\<close> are the vertices of a mesh copy.
\<close>

definition mesh_verts :: "edge list \<Rightarrow> vec3 list" where
  "mesh_verts bm = concat (map (\<lambda>ed. [v1_co ed, v2_co ed]) bm)"

definition within_bounds :: "edge list \<Rightarrow> vec3 \<Rightarrow> bool" where
  "within_bounds bm p =
     (\<forall>ax<3. \<exists>u\<in>set (mesh_verts bm). \<exists>w\<in>set (mesh_verts bm).
        getitem u ax \<le> getitem p ax \<and> getitem p ax \<le> getitem w ax)"

definition ray_cast_sound :: "(edge list \<Rightarrow> vec3 \<Rightarrow> vec3 \<Rightarrow> real \<Rightarrow> hit) \<Rightarrow> bool" where
  "ray_cast_sound rc =
     (\<forall>bm a d l. hit_index (rc bm a d l) \<noteq> - 1 \<longrightarrow>
        (\<exists>t. 0 \<le> t \<and> t \<le> l \<and> hit_location (rc bm a d l) = vadd a (smul d t)) \<and>
        within_bounds bm (hit_location (rc bm a d l)))"

text \<open>A copy of an object under another name, its mesh translated by \<open>T\<close>.\<close>

definition move_edge :: "vec3 \<Rightarrow> edge \<Rightarrow> edge" where
  "move_edge T ed = ed\<lparr>v1_co := vadd (v1_co ed) T, v2_co := vadd (v2_co ed) T\<rparr>"

definition moved_copy :: "string \<Rightarrow> vec3 \<Rightarrow> blender_object \<Rightarrow> blender_object" where
  "moved_copy name T obj = obj\<lparr>obj_name := name, obj_edges := map (move_edge T) (obj_edges obj)\<rparr>"

section \<open>cam.py: tasks\<close>

text \<open>
  \<^verbatim>\<open>normal.to_track_quat('Z', 'Y').to_euler("XYZ")\<close> is a function of the host library; the
  functions below take it as the parameter \<open>track\<close>.
\<close>

type_synonym track = "vec3 \<Rightarrow> vec3"

text \<open>
  The state of a \<^verbatim>\<open>CAMTask\<close> that does not override \<^verbatim>\<open>_build\<close>; the field
  \<^verbatim>\<open>_keypoints\<close> is \<open>priv_keypoints\<close>.
\<close>

record cam_task =
  priv_keypoints :: "pose list"
  TARGET :: blender_object
  TOOL :: blender_object

record contour_trace = cam_task +
  center :: vec3
  plane_normal :: vec3
  contour :: "vec3 list option"

record multi_contour_trace = cam_task +
  start :: vec3
  cuts :: int
  sub_tasks :: "contour_trace list"
  height :: real

text \<open>
  The constructors. An argument that is not a \<^verbatim>\<open>bpy.types.Object\<close> is \<open>None\<close>.
  \<^verbatim>\<open>MultiContourTrace.__init__\<close> takes \<^verbatim>\<open>plane_normal\<close> and does not store it.
\<close>

definition CAMTask_init ::
  "blender_object option \<Rightarrow> blender_object option \<Rightarrow> error + cam_task" where
  "CAMTask_init target tool =
     (case (target, tool) of
        (Some target', Some tool') \<Rightarrow>
          Inr \<lparr>priv_keypoints = [], TARGET = target', TOOL = tool'\<rparr>
      | _ \<Rightarrow> Inl ValueError)"

definition ContourTrace_init ::
  "blender_object option \<Rightarrow> blender_object option \<Rightarrow> vec3 \<Rightarrow> vec3 \<Rightarrow> error + contour_trace" where
  "ContourTrace_init target tool c pn =
     (case CAMTask_init target tool of
        Inl e \<Rightarrow> Inl e
      | Inr base \<Rightarrow>
          Inr \<lparr>priv_keypoints = priv_keypoints base, TARGET = TARGET base, TOOL = TOOL base,
               center = c, plane_normal = pn, contour = None\<rparr>)"

definition MultiContourTrace_init ::
  "blender_object option \<Rightarrow> blender_object option \<Rightarrow> vec3 \<Rightarrow> real \<Rightarrow> int \<Rightarrow> vec3 \<Rightarrow>
   error + multi_contour_trace" where
  "MultiContourTrace_init target tool st h c pn =
     (case CAMTask_init target tool of
        Inl e \<Rightarrow> Inl e
      | Inr base \<Rightarrow>
          Inr \<lparr>priv_keypoints = priv_keypoints base, TARGET = TARGET base, TOOL = TOOL base,
               start = st, cuts = c, sub_tasks = [], height = h\<rparr>)"

subsection \<open>ContourTrace\<close>

definition ray_cast_from_to :: "vec3 \<Rightarrow> vec3 \<Rightarrow> blender_object \<Rightarrow> hit" where
  "ray_cast_from_to origin target collision_object =
     obj_ray_cast collision_object origin (normalized (vsub target origin))"

text \<open>\<^verbatim>\<open>pointInsideMesh(a, obj) and not pointInsideMesh(b, obj)\<close>, evaluated left to right.\<close>

definition inside_and_not_inside :: "blender_object \<Rightarrow> vec3 \<Rightarrow> vec3 \<Rightarrow> bool option" where
  "inside_and_not_inside obj a b =
     (case pointInsideMesh (obj_ray_cast obj) a of
        None \<Rightarrow> None
      | Some False \<Rightarrow> Some False
      | Some True \<Rightarrow> map_option Not (pointInsideMesh (obj_ray_cast obj) b))"

definition probe_pairs :: "(vec3 \<times> vec3) list" where
  "probe_pairs = [((0.5, 0.5, 0), (- 0.5, - 0.5, 0)), ((- 0.5, 0.5, 0), (0.5, - 0.5, 0))]"

text \<open>
  \<^verbatim>\<open>for p1, p2 in [...]\<close> of \<^verbatim>\<open>sample_for_normals\<close>, with its two \<^verbatim>\<open>break\<close>s. The value
  \<open>Some None\<close> is \<^verbatim>\<open>result = [False]\<close>; the outer \<open>None\<close> is a point-in-mesh test that
  never returns.
\<close>

fun probe_loop :: "blender_object \<Rightarrow> vec3 \<Rightarrow> (vec3 \<times> vec3) list \<Rightarrow> hit option option" where
  "probe_loop obj point [] = Some None"
| "probe_loop obj point ((p1, p2) # rest) =
     (let v1 = vadd point (smul p1 0.25);
          v2 = vadd point (smul p2 0.25)
      in case inside_and_not_inside obj v1 v2 of
           None \<Rightarrow> None
         | Some True \<Rightarrow> Some (Some (ray_cast_from_to v2 v1 obj))
         | Some False \<Rightarrow>
            (case inside_and_not_inside obj v2 v1 of
               None \<Rightarrow> None
             | Some True \<Rightarrow> Some (Some (ray_cast_from_to v1 v2 obj))
             | Some False \<Rightarrow> probe_loop obj point rest))"

text \<open>One contour vertex: the keypoint list after \<^verbatim>\<open>if result[0]: ... append\<close>.\<close>

definition sample_vertex ::
  "track \<Rightarrow> blender_object \<Rightarrow> real \<Rightarrow> pose list \<Rightarrow> vec3 \<Rightarrow> pose list option" where
  "sample_vertex track obj offset kps vert =
     (case probe_loop obj vert probe_pairs of
        None \<Rightarrow> None
      | Some None \<Rightarrow> Some kps
      | Some (Some result) \<Rightarrow>
          if hit_ok result
          then Some (kps @ [(vadd (hit_location result) (smul (hit_normal result) offset),
                            track (hit_normal result))])
          else Some kps)"

fun sample_loop ::
  "track \<Rightarrow> blender_object \<Rightarrow> real \<Rightarrow> pose list \<Rightarrow> vec3 list \<Rightarrow> pose list option" where
  "sample_loop track obj offset kps [] = Some kps"
| "sample_loop track obj offset kps (vert # verts) =
     (case sample_vertex track obj offset kps vert of
        None \<Rightarrow> None
      | Some kps' \<Rightarrow> sample_loop track obj offset kps' verts)"

text \<open>
  \<^verbatim>\<open>sample_for_normals\<close> appends to \<^verbatim>\<open>self._keypoints\<close>. With \<^verbatim>\<open>self.contour\<close> equal to
  \<^verbatim>\<open>None\<close> the attribute access \<^verbatim>\<open>self.contour.data\<close> raises.
\<close>

definition sample_for_normals ::
  "track \<Rightarrow> contour_trace \<Rightarrow> real \<Rightarrow> contour_trace outcome option" where
  "sample_for_normals track self offset =
     (case contour self of
        None \<Rightarrow> Some (Raises AttributeError self)
      | Some verts \<Rightarrow>
         (case sample_loop track (TARGET self) offset (priv_keypoints self) verts of
            None \<Rightarrow> None
          | Some kps \<Rightarrow> Some (Returns (self\<lparr>priv_keypoints := kps\<rparr>))))"

definition get_contour :: "contour_trace \<Rightarrow> contour_trace outcome" where
  "get_contour self =
     (case obj_bisect (TARGET self) (center self) (plane_normal self) of
        NoCut \<Rightarrow> Returns self
      | Slice verts \<Rightarrow> Returns (self\<lparr>contour := Some verts\<rparr>)
      | SliceFails e \<Rightarrow> Raises e self
      | SubdivisionFails verts e \<Rightarrow> Raises e (self\<lparr>contour := Some verts\<rparr>))"

text \<open>\<^verbatim>\<open>math.atan2(y, x)\<close> on reals.\<close>

definition atan2 :: "real \<Rightarrow> real \<Rightarrow> real" where
  "atan2 y x =
     (if 0 < x then arctan (y / x)
      else if x < 0 \<and> 0 \<le> y then arctan (y / x) + pi
      else if x < 0 then arctan (y / x) - pi
      else if 0 < y then pi / 2
      else if y < 0 then - pi / 2
      else 0)"

definition get_angle_z :: "pose \<Rightarrow> real" where
  "get_angle_z obj = (case obj of ((x, y, z), rotation) \<Rightarrow> atan2 y x)"

text \<open>
  \<^verbatim>\<open>ContourTrace._build\<close>. Python's \<^verbatim>\<open>sorted\<close> is stable, as \<open>sort_key\<close> is.
\<close>

definition ContourTrace_build_body :: "track \<Rightarrow> contour_trace \<Rightarrow> contour_trace outcome option" where
  "ContourTrace_build_body track self =
     (case get_contour self of
        Raises e self' \<Rightarrow> Some (Raises e self')
      | Returns self' \<Rightarrow>
          if contour self' \<noteq> None
          then (case sample_for_normals track self' 0 of
                  None \<Rightarrow> None
                | Some (Raises e self'') \<Rightarrow> Some (Raises e self'')
                | Some (Returns self'') \<Rightarrow>
                    Some (Returns (self''\<lparr>priv_keypoints :=
                      minimize_objects_angular_distance
                        (sort_key get_angle_z (priv_keypoints self''))\<rparr>)))
          else Some (Returns self'))"

text \<open>
  \<^verbatim>\<open>CAMTask.build\<close> calls \<^verbatim>\<open>_build\<close>, logs, and raises again what \<^verbatim>\<open>_build\<close> raised. It has
  no \<^verbatim>\<open>return\<close> statement.
\<close>

definition ContourTrace_build :: "track \<Rightarrow> contour_trace \<Rightarrow> contour_trace outcome option" where
  "ContourTrace_build track self = ContourTrace_build_body track self"

subsection \<open>MultiContourTrace\<close>

text \<open>\<^verbatim>\<open>axis / self.cuts\<close>, for a divisor that is not zero.\<close>

fun sdiv :: "vec3 \<Rightarrow> real \<Rightarrow> vec3" where
  "sdiv (a, b, c) k = (a / k, b / k, c / k)"

text \<open>
  \<^verbatim>\<open>for i in range(self.cuts + 1)\<close>: a sub-task is appended after its build returned. The
  constructor gets \<^verbatim>\<open>self.TARGET\<close> and \<^verbatim>\<open>self.TOOL\<close>, which are objects.
\<close>

fun slices_loop ::
  "track \<Rightarrow> multi_contour_trace \<Rightarrow> vec3 \<Rightarrow> vec3 \<Rightarrow> int list \<Rightarrow>
   multi_contour_trace outcome option" where
  "slices_loop track self axis dv [] = Some (Returns self)"
| "slices_loop track self axis dv (i # rest) =
     (let plane_co = vadd (start self) (smul dv (of_int i))
      in case ContourTrace_init (Some (TARGET self)) (Some (TOOL self)) plane_co axis of
           Inl e \<Rightarrow> Some (Raises e self)
         | Inr task \<Rightarrow>
            (case ContourTrace_build track task of
               None \<Rightarrow> None
             | Some (Raises e task') \<Rightarrow> Some (Raises e self)
             | Some (Returns task') \<Rightarrow>
                 slices_loop track (self\<lparr>sub_tasks := sub_tasks self @ [task']\<rparr>) axis dv rest))"

definition MultiContourTrace_build_body ::
  "track \<Rightarrow> multi_contour_trace \<Rightarrow> multi_contour_trace outcome option" where
  "MultiContourTrace_build_body track self =
     (let start' = start self;
          end' = (case start' of (x, y, z) \<Rightarrow> (x, y, z + height self));
          axis = vsub end' start'
      in if cuts self = 0 then Some (Raises ZeroDivisionError self)
         else let dv = sdiv axis (of_int (cuts self))
              in slices_loop track self axis dv [0 .. cuts self])"

definition MultiContourTrace_build ::
  "track \<Rightarrow> multi_contour_trace \<Rightarrow> multi_contour_trace outcome option" where
  "MultiContourTrace_build track self = MultiContourTrace_build_body track self"

subsection \<open>Tasks of any class\<close>

datatype task =
  Plain cam_task | Contour contour_trace | Multi multi_contour_trace

text \<open>\<^verbatim>\<open>CAMTask._build\<close> of the base class raises.\<close>

definition CAMTask_build_body :: "cam_task \<Rightarrow> cam_task outcome option" where
  "CAMTask_build_body self = Some (Raises NotImplementedError self)"

text \<open>\<^verbatim>\<open>task.build()\<close>, dispatched on the class of the task.\<close>

fun CAMTask_build :: "track \<Rightarrow> task \<Rightarrow> task outcome option" where
  "CAMTask_build track (Plain self) = map_option (map_outcome Plain) (CAMTask_build_body self)"
| "CAMTask_build track (Contour self) =
     map_option (map_outcome Contour) (ContourTrace_build track self)"
| "CAMTask_build track (Multi self) =
     map_option (map_outcome Multi) (MultiContourTrace_build track self)"

text \<open>
  \<^verbatim>\<open>get_keypoints\<close>. On values \<^verbatim>\<open>copy.deepcopy\<close> is the identity; the copy as an object
  of its own is the subject of the store model below. \<^verbatim>\<open>MultiContourTrace\<close> overrides the
  method with a loop over its sub-tasks.
\<close>

definition CAMTask_get_keypoints :: "'a cam_task_scheme \<Rightarrow> pose list" where
  "CAMTask_get_keypoints self = priv_keypoints self"

definition MultiContourTrace_get_keypoints :: "multi_contour_trace \<Rightarrow> pose list" where
  "MultiContourTrace_get_keypoints self =
     fold (\<lambda>task points. points @ CAMTask_get_keypoints task) (sub_tasks self) []"

fun get_keypoints :: "task \<Rightarrow> pose list" where
  "get_keypoints (Plain self) = CAMTask_get_keypoints self"
| "get_keypoints (Contour self) = CAMTask_get_keypoints self"
| "get_keypoints (Multi self) = MultiContourTrace_get_keypoints self"

section \<open>jobs.py: the job\<close>

text \<open>A Python value that \<^verbatim>\<open>task.build()\<close> may evaluate to, and its truth value.\<close>

datatype pyvalue = PyNone | PyList "pose list"

fun truthy :: "pyvalue \<Rightarrow> bool" where
  "truthy PyNone = False"
| "truthy (PyList xs) = (xs \<noteq> [])"

fun items :: "pyvalue \<Rightarrow> pose list" where
  "items PyNone = []"
| "items (PyList xs) = xs"

record job =
  job_TOOL :: "blender_object option"
  job_TARGET :: "blender_object option"
  tasks :: "task list"
  keypoints :: "pose list"

text \<open>
  \<^verbatim>\<open>for task in self.tasks\<close> of \<^verbatim>\<open>XYZIJK_Job.build\<close>; \<open>built\<close> holds the tasks the loop
  is done with. Every task is a \<^verbatim>\<open>CAMTask\<close>, so \<^verbatim>\<open>hasattr(task, 'build')\<close> holds. The call
  \<^verbatim>\<open>task.build()\<close> evaluates to \<^verbatim>\<open>None\<close>, because \<^verbatim>\<open>CAMTask.build\<close> returns nothing.
\<close>

fun tasks_loop :: "track \<Rightarrow> job \<Rightarrow> task list \<Rightarrow> task list \<Rightarrow> job outcome option" where
  "tasks_loop track self built [] = Some (Returns (self\<lparr>tasks := built\<rparr>))"
| "tasks_loop track self built (task # rest) =
     (case CAMTask_build track task of
        None \<Rightarrow> None
      | Some (Raises e task') \<Rightarrow> Some (Raises e (self\<lparr>tasks := built @ task' # rest\<rparr>))
      | Some (Returns task') \<Rightarrow>
          (let task_keypoints = PyNone;
               self' = (if truthy task_keypoints
                        then self\<lparr>keypoints := keypoints self @ items task_keypoints\<rparr>
                        else self)
           in tasks_loop track self' (built @ [task']) rest))"

text \<open>
  \<open>data_objects\<close> holds the names for which \<^verbatim>\<open>bpy.data.objects.get\<close> finds an object.
\<close>

definition XYZIJK_Job_build :: "track \<Rightarrow> string list \<Rightarrow> job \<Rightarrow> job outcome option" where
  "XYZIJK_Job_build track data_objects self =
     (case (job_TOOL self, job_TARGET self) of
        (Some tool, Some target) \<Rightarrow>
          if obj_name tool \<notin> set data_objects \<or> obj_name target \<notin> set data_objects
          then Some (Raises ValueError self)
          else tasks_loop track (self\<lparr>keypoints := []\<rparr>) [] (tasks self)
      | _ \<Rightarrow> Some (Raises ValueError self))"

definition add_task :: "job \<Rightarrow> task \<Rightarrow> job" where
  "add_task self task = self\<lparr>tasks := tasks self @ [task]\<rparr>"

section \<open>The keypoint objects in a store\<close>

text \<open>
In Python a keypoint list is an object that refers to pose lists, which refer to a
  \<^verbatim>\<open>Vector\<close> and an \<^verbatim>\<open>Euler\<close>. To tell a copy from the object it was copied from, this
  section keeps the objects in a store: an address is an index into the list of all
  objects, a new object goes to the end of the list, and a list object holds the addresses
  of its items.
\<close>

type_synonym addr = nat

datatype pyobj = Floats vec3 | PyListObj "addr list"

type_synonym store = "pyobj list"

fun refs :: "pyobj \<Rightarrow> addr list" where
  "refs (Floats v) = []"
| "refs (PyListObj its) = its"

text \<open>
The value that an address stands for, read to the depth \<open>n\<close>: \<open>None\<close> when the
  address is not in the store or the object graph is deeper than \<open>n\<close>.
\<close>

datatype pytree = FloatsT vec3 | ListT "pytree list"

fun view :: "nat \<Rightarrow> store \<Rightarrow> addr \<Rightarrow> pytree option" where
  "view 0 s a = None"
| "view (Suc n) s a =
     (if length s \<le> a then None
      else case s ! a of
        Floats v \<Rightarrow> Some (FloatsT v)
      | PyListObj its \<Rightarrow>
          (let ts = map (\<lambda>b. view n s b) its
           in if None \<in> set ts then None else Some (ListT (map the ts))))"

text \<open>
\<^verbatim>\<open>copy.deepcopy\<close> of the standard library, for the objects above: it makes a new object
  for the argument and for every object the argument refers to, and gives up (\<open>None\<close>)
  beyond the recursion depth \<open>n\<close>. The memo that would copy an object only once when it
  is reachable twice is left out; the keypoints of a task never hold one object twice.
\<close>

fun deepcopy :: "nat \<Rightarrow> store \<Rightarrow> addr \<Rightarrow> (store \<times> addr) option"
  and deepcopy_items :: "nat \<Rightarrow> store \<Rightarrow> addr list \<Rightarrow> (store \<times> addr list) option" where
  "deepcopy 0 s x = None"
| "deepcopy (Suc n) s x =
     (if length s \<le> x then None
      else case s ! x of
        Floats v \<Rightarrow> Some (s @ [Floats v], length s)
      | PyListObj its \<Rightarrow>
          (case deepcopy_items n s its of
             None \<Rightarrow> None
           | Some (s', its') \<Rightarrow> Some (s' @ [PyListObj its'], length s')))"
| "deepcopy_items n s [] = Some (s, [])"
| "deepcopy_items n s (a # rest) =
     (case deepcopy n s a of
        None \<Rightarrow> None
      | Some (s1, a') \<Rightarrow>
          (case deepcopy_items n s1 rest of
             None \<Rightarrow> None
           | Some (s2, rest') \<Rightarrow> Some (s2, a' # rest')))"

text \<open>
The objects that the object at \<open>y\<close> refers to, directly or through other objects.
\<close>

inductive reach :: "store \<Rightarrow> addr \<Rightarrow> addr \<Rightarrow> bool" where
  reach_self: "reach s y y"
| reach_item: "reach s y a \<Longrightarrow> a < length s \<Longrightarrow> b \<in> set (refs (s ! a)) \<Longrightarrow> reach s y b"

text \<open>
Every reference in the store is an address of the store.
\<close>

definition closed_store :: "store \<Rightarrow> bool" where
  "closed_store s = (\<forall>ob\<in>set s. \<forall>b\<in>set (refs ob). b < length s)"

text \<open>
The objects below \<open>L\<close> refer to objects below \<open>L\<close> only, and the objects from \<open>L\<close> on to
  objects from \<open>L\<close> on only.
\<close>

definition inv_store :: "nat \<Rightarrow> store \<Rightarrow> bool" where
  "inv_store L s \<longleftrightarrow>
     L \<le> length s \<and>
     (\<forall>a<L. \<forall>b\<in>set (refs (s ! a)). b < L) \<and>
     (\<forall>a. L \<le> a \<and> a < length s \<longrightarrow> (\<forall>b\<in>set (refs (s ! a)). L \<le> b \<and> b < length s))"

text \<open>
\<^verbatim>\<open>CAMTask.get_keypoints\<close> for a task whose \<^verbatim>\<open>_keypoints\<close> is the object at address
  \<open>k\<close>: the new store and the address of the copy.
\<close>

definition CAMTask_get_keypoints_store :: "nat \<Rightarrow> store \<Rightarrow> addr \<Rightarrow> (store \<times> addr) option" where
  "CAMTask_get_keypoints_store limit s k = deepcopy limit s k"

text \<open>
\<^verbatim>\<open>MultiContourTrace.get_keypoints\<close> for sub-tasks whose \<^verbatim>\<open>_keypoints\<close> are the objects
  at the addresses \<open>ks\<close>: \<^verbatim>\<open>points = []\<close> is a new list object, and
  \<^verbatim>\<open>points += task.get_keypoints()\<close> puts the items of each copy at its end.
\<close>

fun extend_loop :: "nat \<Rightarrow> store \<Rightarrow> addr \<Rightarrow> addr list \<Rightarrow> store option" where
  "extend_loop limit s points [] = Some s"
| "extend_loop limit s points (k # ks) =
     (case CAMTask_get_keypoints_store limit s k of
        None \<Rightarrow> None
      | Some (s1, y) \<Rightarrow>
         (case (s1 ! points, s1 ! y) of
            (PyListObj ps, PyListObj ys) \<Rightarrow>
              extend_loop limit (s1[points := PyListObj (ps @ ys)]) points ks
          | _ \<Rightarrow> None))"

definition MultiContourTrace_get_keypoints_store ::
  "nat \<Rightarrow> store \<Rightarrow> addr list \<Rightarrow> (store \<times> addr) option" where
  "MultiContourTrace_get_keypoints_store limit s ks =
     (let points = length s
      in map_option (\<lambda>s'. (s', points)) (extend_loop limit (s @ [PyListObj []]) points ks))"

section \<open>Auxiliary notions for the statements\<close>


text \<open>
The state of a task after a build that returned; a task whose build does not return is
  left as it is.
\<close>

definition after_build :: "track \<Rightarrow> task \<Rightarrow> task" where
  "after_build track task =
     (case CAMTask_build track task of Some (Returns task') \<Rightarrow> task' | _ \<Rightarrow> task)"

text \<open>
The \<^verbatim>\<open>ContourTrace\<close> that iteration \<open>i\<close> of \<^verbatim>\<open>MultiContourTrace._build\<close> constructs, before its
  build.
\<close>

definition slice_task :: "multi_contour_trace \<Rightarrow> int \<Rightarrow> contour_trace" where
  "slice_task self i =
     (let start' = start self;
          end' = (case start' of (x, y, z) \<Rightarrow> (x, y, z + height self));
          axis = vsub end' start';
          dv = sdiv axis (of_int (cuts self))
      in \<lparr>priv_keypoints = [], TARGET = TARGET self, TOOL = TOOL self,
          center = vadd (start self) (smul dv (of_int i)), plane_normal = axis,
          contour = None\<rparr>)"

section \<open>Concrete hosts\<close>

text \<open>
Two ray casts for the loop of one axis: one that reports a hit for every cast, and one
  that reports a hit as long as the origin is left of \<open>N\<close> and puts the next origin one
  unit further right.
\<close>

definition always_hit :: ray_cast where
  "always_hit a b = \<lparr>hit_ok = True, hit_location = a, hit_normal = (0, 0, 1), hit_index = 0\<rparr>"

definition hits_n_times :: "nat \<Rightarrow> ray_cast" where
  "hits_n_times N a b =
     (if fst a < real N
      then \<lparr>hit_ok = True, hit_location = (fst a + 1 - 0.00001, 0, 0), hit_normal = (1, 0, 0),
            hit_index = 0\<rparr>
      else \<lparr>hit_ok = False, hit_location = (0, 0, 0), hit_normal = (0, 0, 0), hit_index = - 1\<rparr>)"

text \<open>
A miss, and a ray cast that reports a hit for every ray towards greater \<open>x\<close> and a miss
  for every other ray.
\<close>

definition miss :: hit where
  "miss = \<lparr>hit_ok = False, hit_location = (0, 0, 0), hit_normal = (0, 0, 0), hit_index = - 1\<rparr>"

definition x_never_misses :: ray_cast where
  "x_never_misses a b =
     (if fst a < fst b
      then \<lparr>hit_ok = True, hit_location = a, hit_normal = (1, 0, 0), hit_index = 0\<rparr>
      else miss)"

text \<open>
A target whose ray cast reports one crossing from every origin with \<open>x < 1\<close> and none
  from the others, so that the parity test takes exactly the points with \<open>x < 1\<close> as
  inside; a ray with a direction towards negative \<open>x\<close> meets the surface at
  \<open>(1, 0, 0)\<close>. Every plane cuts it in a contour with the single vertex \<open>(1, 0, 0)\<close>.
\<close>

definition demo_ray_cast :: ray_cast where
  "demo_ray_cast a b =
     (if fst a < 1
      then \<lparr>hit_ok = True, hit_location = (5, 5, 5), hit_normal = (1, 0, 0), hit_index = 0\<rparr>
      else if fst b < 0
      then \<lparr>hit_ok = True, hit_location = (1, 0, 0), hit_normal = (1, 0, 0), hit_index = 0\<rparr>
      else miss)"

definition demo_target :: blender_object where
  "demo_target =
     \<lparr>obj_name = ''TARGET'', obj_type = ''MESH'', obj_ray_cast = demo_ray_cast,
      obj_bisect = (\<lambda>c n. Slice [(1, 0, 0)]), obj_edges = []\<rparr>"

definition demo_tool :: blender_object where
  "demo_tool =
     \<lparr>obj_name = ''tool_control'', obj_type = ''MESH'', obj_ray_cast = (\<lambda>a b. miss),
      obj_bisect = (\<lambda>c n. NoCut), obj_edges = []\<rparr>"

definition demo_track :: track where
  "demo_track n = n"

definition demo_kp :: pose where
  "demo_kp = ((1, 0, 0), (1, 0, 0))"

definition demo_contour :: contour_trace where
  "demo_contour =
     \<lparr>priv_keypoints = [], TARGET = demo_target, TOOL = demo_tool,
      center = (0, 0, 0), plane_normal = (0, 0, 1), contour = None\<rparr>"

definition demo_contour_built :: contour_trace where
  "demo_contour_built = demo_contour\<lparr>priv_keypoints := [demo_kp], contour := Some [(1, 0, 0)]\<rparr>"

definition demo_contour_rebuilt :: contour_trace where
  "demo_contour_rebuilt =
     demo_contour\<lparr>priv_keypoints := [demo_kp, demo_kp], contour := Some [(1, 0, 0)]\<rparr>"

definition demo_plain :: cam_task where
  "demo_plain = \<lparr>priv_keypoints = [], TARGET = demo_target, TOOL = demo_tool\<rparr>"

definition demo_multi :: multi_contour_trace where
  "demo_multi =
     \<lparr>priv_keypoints = [], TARGET = demo_target, TOOL = demo_tool,
      start = (0, 0, 0), cuts = 3, sub_tasks = [], height = 0.5\<rparr>"

definition demo_slice :: "real \<Rightarrow> contour_trace" where
  "demo_slice zc =
     \<lparr>priv_keypoints = [demo_kp], TARGET = demo_target, TOOL = demo_tool,
      center = (0, 0, zc), plane_normal = (0, 0, 0.5), contour = Some [(1, 0, 0)]\<rparr>"

definition demo_multi_built :: multi_contour_trace where
  "demo_multi_built =
     demo_multi\<lparr>sub_tasks :=
       [demo_slice 0, demo_slice (1 / 6), demo_slice (1 / 3), demo_slice (1 / 2)]\<rparr>"

definition demo_multi1 :: multi_contour_trace where
  "demo_multi1 = demo_multi\<lparr>cuts := 1, height := 1\<rparr>"

definition demo_slice1 :: "real \<Rightarrow> contour_trace" where
  "demo_slice1 zc =
     \<lparr>priv_keypoints = [demo_kp], TARGET = demo_target, TOOL = demo_tool,
      center = (0, 0, zc), plane_normal = (0, 0, 1), contour = Some [(1, 0, 0)]\<rparr>"

definition demo_failing_job :: job where
  "demo_failing_job =
     \<lparr>job_TOOL = Some demo_tool, job_TARGET = Some demo_target,
      tasks = [Contour demo_contour, Plain demo_plain, Contour demo_contour], keypoints = []\<rparr>"

text \<open>
A target whose mesh cannot be sliced: the host raises. A \<^verbatim>\<open>MultiContourTrace\<close> on it with
  three cuts.
\<close>

definition failing_target :: blender_object where
  "failing_target =
     \<lparr>obj_name = ''TARGET'', obj_type = ''MESH'', obj_ray_cast = (\<lambda>a b. miss),
      obj_bisect = (\<lambda>c n. SliceFails HostError), obj_edges = []\<rparr>"

definition failing_multi :: multi_contour_trace where
  "failing_multi =
     \<lparr>priv_keypoints = [], TARGET = failing_target, TOOL = demo_tool,
      start = (0, 0, 0), cuts = 3, sub_tasks = [], height = 0.5\<rparr>"

text \<open>
A tetrahedron, and the same mesh moved by 1000 along \<open>x\<close> as another object. Two ray
  casts for the temporary object of the intersection test: one reports a hit for every
  ray, the other reports a hit, at the origin of the ray, when the origin lies within the
  bounds of the mesh.
\<close>

definition tetrahedron :: blender_object where
  "tetrahedron =
     \<lparr>obj_name = ''Tetra'', obj_type = ''MESH'', obj_ray_cast = (\<lambda>a b. miss),
      obj_bisect = (\<lambda>c n. NoCut),
      obj_edges =
        [\<lparr>v1_co = (0, 0, 0), v1_normal = (- 1, - 1, - 1), v2_co = (1, 0, 0), v2_normal = (1, 0, 0)\<rparr>,
         \<lparr>v1_co = (0, 0, 0), v1_normal = (- 1, - 1, - 1), v2_co = (0, 1, 0), v2_normal = (0, 1, 0)\<rparr>,
         \<lparr>v1_co = (0, 0, 0), v1_normal = (- 1, - 1, - 1), v2_co = (0, 0, 1), v2_normal = (0, 0, 1)\<rparr>,
         \<lparr>v1_co = (1, 0, 0), v1_normal = (1, 0, 0), v2_co = (0, 1, 0), v2_normal = (0, 1, 0)\<rparr>,
         \<lparr>v1_co = (1, 0, 0), v1_normal = (1, 0, 0), v2_co = (0, 0, 1), v2_normal = (0, 0, 1)\<rparr>,
         \<lparr>v1_co = (0, 1, 0), v1_normal = (0, 1, 0), v2_co = (0, 0, 1), v2_normal = (0, 0, 1)\<rparr>]\<rparr>"

definition tetrahedron_far :: blender_object where
  "tetrahedron_far = moved_copy ''Tetra.001'' (1000, 0, 0) tetrahedron"

definition any_hit :: "edge list \<Rightarrow> vec3 \<Rightarrow> vec3 \<Rightarrow> real \<Rightarrow> hit" where
  "any_hit bm a d l = \<lparr>hit_ok = True, hit_location = a, hit_normal = (0, 0, 1), hit_index = 0\<rparr>"

definition bounds_ray_cast :: "edge list \<Rightarrow> vec3 \<Rightarrow> vec3 \<Rightarrow> real \<Rightarrow> hit" where
  "bounds_ray_cast bm a d l =
     (if 0 \<le> l \<and> within_bounds bm a
      then \<lparr>hit_ok = True, hit_location = a, hit_normal = (0, 0, 1), hit_index = 0\<rparr>
      else miss)"

text \<open>
A store with one keypoint list, at address 3, that holds one pose, and its value.
\<close>

definition demo_store :: store where
  "demo_store = [Floats (1, 0, 0), Floats (0, 0, 0.5), PyListObj [0, 1], PyListObj [2]]"

definition demo_tree :: pytree where
  "demo_tree = ListT [ListT [FloatsT (1, 0, 0), FloatsT (0, 0, 0.5)]]"

section \<open>Angular unwrapping\<close>




lemma wrap_diff_0: "wrap_diff 0 = 0"
  by (simp add: wrap_diff_def py_fmod_def)




lemma minimize_single: "minimize_objects_angular_distance [p] = [p]"
  by (simp add: minimize_objects_angular_distance_def)

lemma minimize_twice_same:
  "minimize_objects_angular_distance [(l, r), (l, r)] = [(l, r), (l, r)]"
  by (cases r) (simp add: minimize_objects_angular_distance_def unwrap_pose_def unwrap_axis_def
      wrap_diff_0)



section \<open>The point-in-mesh parity test\<close>

lemma count_crossings_miss:
  "cast_misses rc axis orig 0 \<Longrightarrow> count_crossings rc axis orig c = Some c"
  by (subst count_crossings.simps) (simp add: cast_misses_def)

lemma count_crossings_hit:
  "\<not> cast_misses rc axis orig 0 \<Longrightarrow>
   count_crossings rc axis orig c =
   count_crossings rc axis
     (vadd (hit_location (rc orig (vadd orig (smul axis 10000)))) (smul axis 0.00001)) (c + 1)"
  by (subst count_crossings.simps) (simp add: cast_misses_def)

lemma cast_misses_Suc:
  "cast_misses rc axis orig (Suc n) =
   cast_misses rc axis
     (vadd (hit_location (rc orig (vadd orig (smul axis 10000)))) (smul axis 0.00001)) n"
  by (simp add: cast_misses_def)

lemma count_crossings_first_miss:
  "cast_misses rc axis orig n \<Longrightarrow> (\<forall>k<n. \<not> cast_misses rc axis orig k) \<Longrightarrow>
   count_crossings rc axis orig c = Some (c + n)"
proof (induction n arbitrary: orig c)
  case 0
  then show ?case by (simp add: count_crossings_miss)
next
  case (Suc n)
  from Suc.prems(2) have h0: "\<not> cast_misses rc axis orig 0" by blast
  let ?o = "vadd (hit_location (rc orig (vadd orig (smul axis 10000)))) (smul axis 0.00001)"
  from Suc.prems(1) have m: "cast_misses rc axis ?o n" by (simp add: cast_misses_Suc)
  have "\<forall>k<n. \<not> cast_misses rc axis ?o k"
  proof (intro allI impI)
    fix k assume "k < n"
    then have "Suc k < Suc n" by simp
    with Suc.prems(2) have "\<not> cast_misses rc axis orig (Suc k)" by blast
    then show "\<not> cast_misses rc axis ?o k" by (simp add: cast_misses_Suc)
  qed
  with m have "count_crossings rc axis ?o (c + 1) = Some (c + 1 + n)"
    by (rule Suc.IH)
  with h0 show ?case by (simp add: count_crossings_hit)
qed

lemma count_crossings_Some_miss:
  assumes "count_crossings rc axis orig c = Some r"
  shows "\<exists>n. cast_misses rc axis orig n \<and> (\<forall>k<n. \<not> cast_misses rc axis orig k) \<and> r = c + n"
  using assms
proof (induction rc axis orig c r rule: count_crossings.raw_induct [rotated 1, consumes 1, case_names step])
  case (step cc rc axis orig count r)
  note 1 = step
  show ?case
  proof (cases "cast_misses rc axis orig 0")
    case True
    with 1(2) have "r = count" by (simp add: cast_misses_def)
    with True show ?thesis by (intro exI [of _ 0]) simp
  next
    case False
    let ?o = "vadd (hit_location (rc orig (vadd orig (smul axis 10000)))) (smul axis 0.00001)"
    from False 1(2) have "cc rc axis ?o (count + 1) = Some r"
      by (simp add: cast_misses_def)
    from 1(1) [OF this] obtain n where
      n: "cast_misses rc axis ?o n" "\<forall>k<n. \<not> cast_misses rc axis ?o k" "r = count + 1 + n"
      by blast
    have "\<forall>k<Suc n. \<not> cast_misses rc axis orig k"
    proof (intro allI impI)
      fix k assume k: "k < Suc n"
      show "\<not> cast_misses rc axis orig k"
      proof (cases k)
        case 0
        with False show ?thesis by simp
      next
        case (Suc j)
        with k n(2) show ?thesis by (simp add: cast_misses_Suc)
      qed
    qed
    moreover from n(1) have "cast_misses rc axis orig (Suc n)" by (simp add: cast_misses_Suc)
    moreover from n(3) have "r = count + Suc n" by simp
    ultimately show ?thesis by blast
  qed
qed

lemma count_crossings_returns_iff:
  "count_crossings rc axis orig c \<noteq> None \<longleftrightarrow> (\<exists>n. cast_misses rc axis orig n)"
proof
  assume "count_crossings rc axis orig c \<noteq> None"
  then obtain r where "count_crossings rc axis orig c = Some r" by blast
  from count_crossings_Some_miss [OF this] show "\<exists>n. cast_misses rc axis orig n" by blast
next
  assume "\<exists>n. cast_misses rc axis orig n"
  then obtain n where n: "cast_misses rc axis orig n" ..
  define m where "m = (LEAST k. cast_misses rc axis orig k)"
  have "cast_misses rc axis orig m" unfolding m_def using n by (rule LeastI)
  moreover have "\<forall>k<m. \<not> cast_misses rc axis orig k"
    unfolding m_def using not_less_Least by blast
  ultimately have "count_crossings rc axis orig c = Some (c + m)"
    by (rule count_crossings_first_miss)
  then show "count_crossings rc axis orig c \<noteq> None" by simp
qed

lemma always_hit_never_misses: "\<not> cast_misses always_hit axis orig n"
  by (simp add: cast_misses_def always_hit_def)

lemma count_crossings_always_hit: "count_crossings always_hit axis orig c = None"
  using count_crossings_returns_iff [of always_hit axis orig c] always_hit_never_misses
  by simp

lemma restart_origin_hits_n_times:
  "k + n \<le> N \<Longrightarrow>
   restart_origin (hits_n_times N) (1, 0, 0) (real k, 0, 0) n = (real (k + n), 0, 0)"
proof (induction n arbitrary: k)
  case 0
  then show ?case by simp
next
  case (Suc n)
  then have "real k < real N" by simp
  then have "vadd (hit_location (hits_n_times N (real k, 0, 0)
                 (vadd (real k, 0, 0) (smul (1, 0, 0) 10000)))) (smul (1, 0, 0) 0.00001)
             = (real (Suc k), 0, 0)"
    by (simp add: hits_n_times_def)
  moreover from Suc.prems have "Suc k + n \<le> N" by simp
  ultimately show ?case using Suc.IH [of "Suc k"] by simp
qed

lemma cast_misses_hits_n_times:
  "n \<le> N \<Longrightarrow> cast_misses (hits_n_times N) (1, 0, 0) (0, 0, 0) n \<longleftrightarrow> n = N"
  using restart_origin_hits_n_times [of 0 n N]
  by (auto simp: cast_misses_def hits_n_times_def)

lemma count_crossings_hits_n_times:
  "count_crossings (hits_n_times N) (1, 0, 0) (0, 0, 0) 0 = Some N"
  using count_crossings_first_miss [of "hits_n_times N" "(1, 0, 0)" "(0, 0, 0)" N 0]
  by (simp add: cast_misses_hits_n_times)

lemma count_crossings_demo:
  assumes "0 \<le> fst axis"
  shows "count_crossings demo_ray_cast axis v 0 = Some (if fst v < 1 then 1 else 0)"
proof (cases "fst v < 1")
  case True
  obtain a b c where ax: "axis = (a, b, c)" by (cases axis)
  obtain x y z where v: "v = (x, y, z)" by (cases v)
  from True have h: "\<not> cast_misses demo_ray_cast axis v 0"
    by (simp add: cast_misses_def demo_ray_cast_def)
  have m: "cast_misses demo_ray_cast axis v 1"
    using True assms ax v by (simp add: cast_misses_def demo_ray_cast_def miss_def)
  have "count_crossings demo_ray_cast axis v 0 = Some (0 + 1)"
    using m h by (intro count_crossings_first_miss) auto
  with True show ?thesis by simp
next
  case False
  obtain a b c where ax: "axis = (a, b, c)" by (cases axis)
  obtain x y z where v: "v = (x, y, z)" by (cases v)
  have "cast_misses demo_ray_cast axis v 0"
    using False assms ax v by (simp add: cast_misses_def demo_ray_cast_def miss_def)
  then have "count_crossings demo_ray_cast axis v 0 = Some 0"
    by (rule count_crossings_miss)
  with False show ?thesis by simp
qed

lemma pointInsideMesh_demo: "pointInsideMesh demo_ray_cast v = Some (fst v < 1)"
  by (cases "fst v < 1") (simp_all add: pointInsideMesh_def axes_def count_crossings_demo)

lemma axes_loop_False_iff:
  "pointInsideMesh rc p = Some False \<longleftrightarrow>
     (\<exists>n. count_crossings rc (1, 0, 0) p 0 = Some n \<and> even n) \<or>
     (\<exists>n. count_crossings rc (1, 0, 0) p 0 = Some n \<and> odd n) \<and>
     ((\<exists>n. count_crossings rc (0, 1, 0) p 0 = Some n \<and> even n) \<or>
      (\<exists>n. count_crossings rc (0, 1, 0) p 0 = Some n \<and> odd n) \<and>
      (\<exists>n. count_crossings rc (0, 0, 1) p 0 = Some n \<and> even n))"
  by (auto simp: pointInsideMesh_def axes_def even_iff_mod_2_eq_zero
      split: option.splits if_splits)

lemma x_never_misses_x: "\<not> cast_misses x_never_misses (1, 0, 0) orig n"
proof -
  obtain x y z where "restart_origin x_never_misses (1, 0, 0) orig n = (x, y, z)"
    by (cases "restart_origin x_never_misses (1, 0, 0) orig n")
  then show ?thesis by (simp add: cast_misses_def x_never_misses_def)
qed

lemma count_crossings_x_never_misses_x:
  "count_crossings x_never_misses (1, 0, 0) orig 0 = None"
  using count_crossings_returns_iff [of x_never_misses "(1, 0, 0)" orig 0] x_never_misses_x
  by simp

lemma count_crossings_x_never_misses_y:
  "count_crossings x_never_misses (0, 1, 0) (0, 0, 0) 0 = Some 0"
  by (rule count_crossings_miss) (simp add: cast_misses_def x_never_misses_def miss_def)

text \<open>
Claim C7, at a ray cast whose loop for the \<open>x\<close> axis never ends: the \<open>y\<close> axis yields
  the even count 0, and \<^verbatim>\<open>pointInsideMesh\<close> does not return false; it does not return.
\<close>

theorem pointInsideMesh_even_axis_counterexample:
  "count_crossings x_never_misses (0, 1, 0) (0, 0, 0) 0 = Some 0 \<and>
   pointInsideMesh x_never_misses (0, 0, 0) = None"
  by (simp add: count_crossings_x_never_misses_y pointInsideMesh_def axes_def
      count_crossings_x_never_misses_x)

text \<open>
Claim C7, as the code has it. \<^verbatim>\<open>pointInsideMesh\<close> returns true exactly when the loop of
  each of the three principal axes ends with an odd crossing count. It returns false
  exactly when the loop of some axis ends with an even count and the loops of the axes
  before it, in the order \<open>x\<close>, \<open>y\<close>, \<open>z\<close>, end with odd counts. It does not return
  exactly when the loop of some axis never ends and the loops of the axes before it end
  with odd counts.
\<close>

theorem pointInsideMesh_parity:
  "(pointInsideMesh rc p = Some True \<longleftrightarrow>
      (\<forall>axis\<in>set axes. \<exists>n. count_crossings rc axis p 0 = Some n \<and> odd n)) \<and>
   (pointInsideMesh rc p = Some False \<longleftrightarrow>
      (\<exists>n. count_crossings rc (1, 0, 0) p 0 = Some n \<and> even n) \<or>
      (\<exists>n. count_crossings rc (1, 0, 0) p 0 = Some n \<and> odd n) \<and>
      ((\<exists>n. count_crossings rc (0, 1, 0) p 0 = Some n \<and> even n) \<or>
       (\<exists>n. count_crossings rc (0, 1, 0) p 0 = Some n \<and> odd n) \<and>
       (\<exists>n. count_crossings rc (0, 0, 1) p 0 = Some n \<and> even n))) \<and>
   (pointInsideMesh rc p = None \<longleftrightarrow>
      count_crossings rc (1, 0, 0) p 0 = None \<or>
      (\<exists>n. count_crossings rc (1, 0, 0) p 0 = Some n \<and> odd n) \<and>
      (count_crossings rc (0, 1, 0) p 0 = None \<or>
       (\<exists>n. count_crossings rc (0, 1, 0) p 0 = Some n \<and> odd n) \<and>
       count_crossings rc (0, 0, 1) p 0 = None))"
proof (intro conjI)
  show "pointInsideMesh rc p = Some True \<longleftrightarrow>
      (\<forall>axis\<in>set axes. \<exists>n. count_crossings rc axis p 0 = Some n \<and> odd n)"
    by (auto simp: pointInsideMesh_def axes_def even_iff_mod_2_eq_zero
        split: option.splits if_splits)
  show "pointInsideMesh rc p = Some False \<longleftrightarrow>
      (\<exists>n. count_crossings rc (1, 0, 0) p 0 = Some n \<and> even n) \<or>
      (\<exists>n. count_crossings rc (1, 0, 0) p 0 = Some n \<and> odd n) \<and>
      ((\<exists>n. count_crossings rc (0, 1, 0) p 0 = Some n \<and> even n) \<or>
       (\<exists>n. count_crossings rc (0, 1, 0) p 0 = Some n \<and> odd n) \<and>
       (\<exists>n. count_crossings rc (0, 0, 1) p 0 = Some n \<and> even n))"
    by (rule axes_loop_False_iff)
  show "pointInsideMesh rc p = None \<longleftrightarrow>
      count_crossings rc (1, 0, 0) p 0 = None \<or>
      (\<exists>n. count_crossings rc (1, 0, 0) p 0 = Some n \<and> odd n) \<and>
      (count_crossings rc (0, 1, 0) p 0 = None \<or>
       (\<exists>n. count_crossings rc (0, 1, 0) p 0 = Some n \<and> odd n) \<and>
       count_crossings rc (0, 0, 1) p 0 = None)"
    by (auto simp: pointInsideMesh_def axes_def even_iff_mod_2_eq_zero
        split: option.splits if_splits)
qed

theorem pointInsideMesh_parity_witness:
  "pointInsideMesh demo_ray_cast (2, 0, 0) = Some False \<and>
   pointInsideMesh demo_ray_cast (0, 0, 0) = Some True \<and>
   pointInsideMesh x_never_misses (0, 0, 0) = None"
proof -
  have a: "\<exists>n. count_crossings demo_ray_cast (1, 0, 0) (2, 0, 0) 0 = Some n \<and> even n"
    by (simp add: count_crossings_demo)
  have c: "\<forall>axis\<in>set axes. \<exists>n. count_crossings demo_ray_cast axis (0, 0, 0) 0 = Some n \<and> odd n"
    by (simp add: axes_def count_crossings_demo)
  note d = count_crossings_x_never_misses_x [of "(0, 0, 0)"]
  from pointInsideMesh_parity [of demo_ray_cast "(2, 0, 0)"] a
  have 1: "pointInsideMesh demo_ray_cast (2, 0, 0) = Some False" by blast
  from pointInsideMesh_parity [of demo_ray_cast "(0, 0, 0)"] c
  have 2: "pointInsideMesh demo_ray_cast (0, 0, 0) = Some True" by blast
  from pointInsideMesh_parity [of x_never_misses "(0, 0, 0)"] d
  have 3: "pointInsideMesh x_never_misses (0, 0, 0) = None" by blast
  from 1 2 3 show ?thesis by blast
qed

text \<open>
Claim C8. The loop of one axis ends exactly when one of the ray casts, each restarted just
  past the hit before it, reports a miss. Some ray cast makes it run forever, and for every
  \<open>N\<close> some ray cast makes it run \<open>N\<close> times before it ends: no number bounds the
  iterations.
\<close>

theorem crossing_loop_termination:
  "(count_crossings rc axis orig 0 \<noteq> None \<longleftrightarrow> (\<exists>n. cast_misses rc axis orig n)) \<and>
   (\<exists>rc'. count_crossings rc' axis orig 0 = None) \<and>
   (\<forall>N. \<exists>rc'. count_crossings rc' (1, 0, 0) (0, 0, 0) 0 = Some N)"
  using count_crossings_returns_iff [of rc axis orig 0]
    count_crossings_always_hit [of axis orig 0] count_crossings_hits_n_times
  by blast

section \<open>The mesh intersection test\<close>

lemma edges_loop_iff: "edges_loop rc eds \<longleftrightarrow> (\<exists>ed\<in>set eds. edge_hits rc ed)"
  by (induction eds) auto

lemma getitem_vadd: "getitem (vadd a b) ax = getitem a ax + getitem b ax"
  by (cases a; cases b) simp

lemma getitem_vsub: "getitem (vsub a b) ax = getitem a ax - getitem b ax"
  by (cases a; cases b) simp

lemma getitem_smul: "getitem (smul a k) ax = getitem a ax * k"
  by (cases a) simp

lemma abs_le_sqrt_sum: "a * a \<le> s \<Longrightarrow> \<bar>a\<bar> \<le> sqrt s"
proof -
  assume "a * a \<le> s"
  then have "sqrt (a * a) \<le> sqrt s" by (rule real_sqrt_le_mono)
  then show ?thesis by simp
qed

lemma abs_getitem_le_vlength: "\<bar>getitem v ax\<bar> \<le> vlength v"
proof -
  obtain x y z where v: "v = (x, y, z)" by (cases v)
  have "\<bar>x\<bar> \<le> sqrt (x * x + y * y + z * z)" by (rule abs_le_sqrt_sum) simp
  moreover have "\<bar>y\<bar> \<le> sqrt (x * x + y * y + z * z)" by (rule abs_le_sqrt_sum) simp
  moreover have "\<bar>z\<bar> \<le> sqrt (x * x + y * y + z * z)" by (rule abs_le_sqrt_sum) simp
  ultimately show ?thesis using v by simp
qed

lemma vlength_nonneg: "0 \<le> vlength v"
  using abs_getitem_le_vlength [of v 0] by linarith

lemma abs_getitem_normalized: "\<bar>getitem (normalized v) ax\<bar> \<le> 1"
proof (cases "vlength v = 0")
  case True
  with abs_getitem_le_vlength [of v ax] show ?thesis by (simp add: normalized_def)
next
  case False
  with vlength_nonneg [of v] have p: "0 < vlength v" by simp
  have "\<bar>getitem v ax\<bar> / vlength v \<le> 1"
    using abs_getitem_le_vlength [of v ax] p by simp
  with False p show ?thesis by (simp add: normalized_def getitem_smul)
qed

lemma vlength_le_sum: "vlength (x, y, z) \<le> \<bar>x\<bar> + \<bar>y\<bar> + \<bar>z\<bar>"
proof -
  have "0 \<le> \<bar>x\<bar> * \<bar>y\<bar>" "0 \<le> \<bar>x\<bar> * \<bar>z\<bar>" "0 \<le> \<bar>y\<bar> * \<bar>z\<bar>" by simp_all
  moreover have "(\<bar>x\<bar> + \<bar>y\<bar> + \<bar>z\<bar>)\<^sup>2 =
      x * x + y * y + z * z + 2 * (\<bar>x\<bar> * \<bar>y\<bar>) + 2 * (\<bar>x\<bar> * \<bar>z\<bar>) + 2 * (\<bar>y\<bar> * \<bar>z\<bar>)"
    by (simp add: power2_eq_square algebra_simps)
  ultimately have "x * x + y * y + z * z \<le> (\<bar>x\<bar> + \<bar>y\<bar> + \<bar>z\<bar>)\<^sup>2" by linarith
  then have "sqrt (x * x + y * y + z * z) \<le> \<bar>x\<bar> + \<bar>y\<bar> + \<bar>z\<bar>"
    by (intro real_le_lsqrt) simp_all
  then show ?thesis by simp
qed

lemma ray_cast_sound_bounds: "ray_cast_sound bounds_ray_cast"
  unfolding ray_cast_sound_def
proof (intro allI impI conjI)
  fix bm a d l
  assume h: "hit_index (bounds_ray_cast bm a d l) \<noteq> - 1"
  then have c: "0 \<le> l \<and> within_bounds bm a"
    by (auto simp: bounds_ray_cast_def miss_def split: if_splits)
  then have loc: "hit_location (bounds_ray_cast bm a d l) = a"
    by (simp add: bounds_ray_cast_def)
  obtain x y z where a: "a = (x, y, z)" by (cases a)
  obtain dx dy dz where d: "d = (dx, dy, dz)" by (cases d)
  from a d have "a = vadd a (smul d 0)" by simp
  with c loc show "\<exists>t. 0 \<le> t \<and> t \<le> l \<and> hit_location (bounds_ray_cast bm a d l) = vadd a (smul d t)"
    by (intro exI [of _ 0]) simp
  from c loc show "within_bounds bm (hit_location (bounds_ray_cast bm a d l))" by simp
qed

lemma mesh_verts_move: "mesh_verts (map (move_edge T) bm) = map (\<lambda>v. vadd v T) (mesh_verts bm)"
  by (induction bm) (simp_all add: mesh_verts_def move_edge_def)

lemma offset_origin_bound:
  fixes p q n R :: real
  assumes "\<bar>p\<bar> \<le> R" and "\<bar>q\<bar> \<le> R" and "\<bar>n\<bar> \<le> 1"
  shows "\<bar>p * (1 - 1 / 100) + (p + q) * (1 / 2) * (1 / 100) + n * (1 / 1000000)\<bar>
         \<le> R + 1 / 1000000"
proof -
  from assms have b: "- R \<le> p" "p \<le> R" "- R \<le> q" "q \<le> R" "- 1 \<le> n" "n \<le> 1"
    by (simp_all add: abs_le_iff)
  have e: "p * (1 - 1 / 100) + (p + q) * (1 / 2) * (1 / 100) + n * (1 / 1000000)
           = (199 / 200) * p + (1 / 200) * q + (1 / 1000000) * n"
    by (simp add: field_simps)
  show ?thesis unfolding e
  proof (rule abs_leI)
    show "199 / 200 * p + 1 / 200 * q + 1 / 1000000 * n \<le> R + 1 / 1000000"
      using b by linarith
    show "- (199 / 200 * p + 1 / 200 * q + 1 / 1000000 * n) \<le> R + 1 / 1000000"
      using b by linarith
  qed
qed

lemma edge_misses_far:
  assumes sound: "ray_cast_sound rc"
    and ed: "ed \<in> set bm"
    and bnd: "\<forall>v\<in>set (mesh_verts bm). \<forall>ax<3. \<bar>getitem v ax\<bar> \<le> R"
    and ax: "ax < 3"
    and far: "8 * R + 1 < \<bar>getitem T ax\<bar>"
  shows "\<not> edge_hits (rc (map (move_edge T) bm)) ed"
proof
  assume hit: "edge_hits (rc (map (move_edge T) bm)) ed"
  let ?c1 = "v1_co ed" and ?c2 = "v2_co ed"
  let ?n = "normalized (vadd (v1_normal ed) (v2_normal ed))"
  let ?mid = "smul (vadd ?c1 ?c2) 0.5"
  let ?a = "vadd (lerp ?c1 ?mid EPS_CENTER) (smul ?n EPS_NORMAL)"
  let ?b = "vadd (lerp ?c2 ?mid EPS_CENTER) (smul ?n EPS_NORMAL)"
  let ?d = "normalized (vsub ?b ?a)"
  let ?l = "calc_length ed"
  let ?h = "rc (map (move_edge T) bm) ?a ?d ?l"
  from hit have "hit_index ?h \<noteq> - 1" by (simp add: edge_hits_def Let_def)
  with sound obtain t where t: "0 \<le> t" "t \<le> ?l"
    and loc: "hit_location ?h = vadd ?a (smul ?d t)"
    and wb: "within_bounds (map (move_edge T) bm) (hit_location ?h)"
    unfolding ray_cast_sound_def by blast
  from ed have "?c1 \<in> set (mesh_verts bm)" "?c2 \<in> set (mesh_verts bm)" by (auto simp: mesh_verts_def)
  with bnd have c: "\<And>k. k < 3 \<Longrightarrow> \<bar>getitem ?c1 k\<bar> \<le> R" "\<And>k. k < 3 \<Longrightarrow> \<bar>getitem ?c2 k\<bar> \<le> R"
    by blast+
  from c(1) [OF ax] have R0: "0 \<le> R" by linarith
  have n1: "\<bar>getitem ?n ax\<bar> \<le> 1" by (rule abs_getitem_normalized)
  have a_eq: "getitem ?a ax =
      getitem ?c1 ax * (1 - 1 / 100) + (getitem ?c1 ax + getitem ?c2 ax) * (1 / 2) * (1 / 100)
      + getitem ?n ax * (1 / 1000000)"
    by (simp add: getitem_vadd getitem_smul lerp_def EPS_CENTER_def EPS_NORMAL_def)
  from c(1) [OF ax] c(2) [OF ax] n1 have a_b: "\<bar>getitem ?a ax\<bar> \<le> R + 1 / 1000000"
    unfolding a_eq by (rule offset_origin_bound)
  obtain x y z where df: "vsub ?c2 ?c1 = (x, y, z)" by (cases "vsub ?c2 ?c1")
  have "getitem (vsub ?c2 ?c1) 0 = x" "getitem (vsub ?c2 ?c1) 1 = y" "getitem (vsub ?c2 ?c1) 2 = z"
    unfolding df by simp_all
  then have xyz: "x = getitem ?c2 0 - getitem ?c1 0" "y = getitem ?c2 1 - getitem ?c1 1"
    "z = getitem ?c2 2 - getitem ?c1 2"
    by (simp_all add: getitem_vsub)
  have k3: "(0::nat) < 3" "(1::nat) < 3" "(2::nat) < 3" by simp_all
  from c(1) [OF k3(1)] c(2) [OF k3(1)] xyz(1) have x2: "\<bar>x\<bar> \<le> 2 * R" by linarith
  from c(1) [OF k3(2)] c(2) [OF k3(2)] xyz(2) have y2: "\<bar>y\<bar> \<le> 2 * R" by linarith
  from c(1) [OF k3(3)] c(2) [OF k3(3)] xyz(3) have z2: "\<bar>z\<bar> \<le> 2 * R" by linarith
  have "?l \<le> \<bar>x\<bar> + \<bar>y\<bar> + \<bar>z\<bar>"
    unfolding calc_length_def df by (rule vlength_le_sum)
  with x2 y2 z2 have l6: "?l \<le> 6 * R" by linarith
  have d1: "\<bar>getitem ?d ax\<bar> \<le> 1" by (rule abs_getitem_normalized)
  have "\<bar>getitem ?d ax * t\<bar> = \<bar>getitem ?d ax\<bar> * t" using t(1) by (simp add: abs_mult)
  also have "\<dots> \<le> 1 * t" using d1 t(1) by (intro mult_right_mono) simp_all
  finally have dt: "\<bar>getitem ?d ax * t\<bar> \<le> 6 * R" using t(2) l6 by linarith
  have "getitem (hit_location ?h) ax = getitem ?a ax + getitem ?d ax * t"
    unfolding loc by (simp add: getitem_vadd getitem_smul)
  with a_b dt have loc_b: "\<bar>getitem (hit_location ?h) ax\<bar> \<le> 7 * R + 1 / 1000000" by linarith
  from wb ax obtain u w where
    u: "u \<in> set (mesh_verts (map (move_edge T) bm))" and w: "w \<in> set (mesh_verts (map (move_edge T) bm))"
    and uw: "getitem u ax \<le> getitem (hit_location ?h) ax"
            "getitem (hit_location ?h) ax \<le> getitem w ax"
    unfolding within_bounds_def by blast
  from u obtain u0 where u0: "u0 \<in> set (mesh_verts bm)" "u = vadd u0 T"
    unfolding mesh_verts_move by auto
  from w obtain w0 where w0: "w0 \<in> set (mesh_verts bm)" "w = vadd w0 T"
    unfolding mesh_verts_move by auto
  from bnd u0(1) w0(1) ax have "\<bar>getitem u0 ax\<bar> \<le> R" "\<bar>getitem w0 ax\<bar> \<le> R" by blast+
  moreover have "getitem u ax = getitem u0 ax + getitem T ax"
    "getitem w ax = getitem w0 ax + getitem T ax"
    unfolding u0(2) w0(2) by (simp_all add: getitem_vadd)
  ultimately have "getitem T ax - R \<le> getitem (hit_location ?h) ax"
    "getitem (hit_location ?h) ax \<le> getitem T ax + R"
    using uw by linarith+
  with loc_b have "\<bar>getitem T ax\<bar> \<le> 8 * R + 1 / 1000000" by linarith
  with far show False by linarith
qed

lemma far_copy_no_intersection:
  assumes "ray_cast_sound rc" and "obj_type A = ''MESH''" and "name \<noteq> obj_name A"
    and "\<forall>v\<in>set (mesh_verts (obj_edges A)). \<forall>ax<3. \<bar>getitem v ax\<bar> \<le> R"
    and "ax < 3" and "8 * R + 1 < \<bar>getitem T ax\<bar>"
  shows "bmesh_check_intersect_objects rc A (moved_copy name T A) = Inr False"
proof -
  let ?B = "moved_copy name T A"
  from assms(3) have "obj_name A \<noteq> obj_name ?B" by (simp add: moved_copy_def)
  then have ne: "A \<noteq> ?B" by auto
  have ty: "obj_type ?B = ''MESH''" using assms(2) by (simp add: moved_copy_def)
  have ed: "obj_edges ?B = map (move_edge T) (obj_edges A)" by (simp add: moved_copy_def)
  have "\<forall>ed\<in>set (obj_edges A). \<not> edge_hits (rc (map (move_edge T) (obj_edges A))) ed"
    using edge_misses_far [OF assms(1) _ assms(4,5,6)] by blast
  then have "\<not> edges_loop (rc (map (move_edge T) (obj_edges A))) (obj_edges A)"
    by (simp add: edges_loop_iff)
  with ne ty assms(2) show ?thesis
    by (simp add: bmesh_check_intersect_objects_def bmesh_copy_from_object_def ed)
qed

lemma all_less_3: "(\<forall>ax<3::nat. P ax) \<longleftrightarrow> P 0 \<and> P 1 \<and> P 2"
proof -
  have "\<And>k::nat. k < 3 \<longleftrightarrow> k = 0 \<or> k = 1 \<or> k = 2" by auto
  then show ?thesis by (metis One_nat_def)
qed

lemma tetrahedron_bounds:
  "\<forall>v\<in>set (mesh_verts (obj_edges tetrahedron)). \<forall>ax<3. \<bar>getitem v ax\<bar> \<le> 1"
  by (simp add: mesh_verts_def tetrahedron_def all_less_3)

lemma bounds_ray_cast_hits_far:
  "hit_index (bounds_ray_cast (obj_edges tetrahedron_far) (1000.5, 0.2, 0.2) (1, 0, 0) 1) = 0"
  by (simp add: bounds_ray_cast_def within_bounds_def all_less_3 mesh_verts_def tetrahedron_far_def
      moved_copy_def move_edge_def tetrahedron_def)

text \<open>
Claim C3, at the same object: the test applied to the tetrahedron and itself does not
  return true, whatever the ray cast reports.
\<close>

theorem intersect_same_object_counterexample:
  "bmesh_check_intersect_objects any_hit tetrahedron tetrahedron \<noteq> Inr True"
  by (simp add: bmesh_check_intersect_objects_def)

text \<open>
Claim C3, as the code has it. Applied to an object and itself the test fails its
  assertion. Applied to two different mesh objects it returns whether the ray along some
  edge of the object with fewer edges hits the other one. Applied to a mesh object whose
  coordinates are bounded by \<open>R\<close> and a copy of it under another name, translated by more
  than \<open>8 R + 1\<close> along some axis, it returns false, for every ray cast of the host that
  reports only hits on the ray, within its distance and within the bounds of the mesh.
\<close>

theorem intersect_distinct_objects:
  "bmesh_check_intersect_objects rc A A = Inl AssertionError \<and>
   (A \<noteq> B \<and> obj_type A = ''MESH'' \<and> obj_type B = ''MESH'' \<longrightarrow>
      bmesh_check_intersect_objects rc A B =
        Inr (if length (obj_edges A) > length (obj_edges B)
             then \<exists>ed\<in>set (obj_edges B). edge_hits (rc (obj_edges A)) ed
             else \<exists>ed\<in>set (obj_edges A). edge_hits (rc (obj_edges B)) ed)) \<and>
   (ray_cast_sound rc \<and> obj_type A = ''MESH'' \<and> name \<noteq> obj_name A \<and>
    (\<forall>v\<in>set (mesh_verts (obj_edges A)). \<forall>ax<3. \<bar>getitem v ax\<bar> \<le> R) \<and>
    ax < 3 \<and> 8 * R + 1 < \<bar>getitem T ax\<bar> \<longrightarrow>
      bmesh_check_intersect_objects rc A (moved_copy name T A) = Inr False)"
proof (intro conjI impI)
  show "bmesh_check_intersect_objects rc A A = Inl AssertionError"
    by (simp add: bmesh_check_intersect_objects_def)
next
  assume "A \<noteq> B \<and> obj_type A = ''MESH'' \<and> obj_type B = ''MESH''"
  then show "bmesh_check_intersect_objects rc A B =
        Inr (if length (obj_edges A) > length (obj_edges B)
             then \<exists>ed\<in>set (obj_edges B). edge_hits (rc (obj_edges A)) ed
             else \<exists>ed\<in>set (obj_edges A). edge_hits (rc (obj_edges B)) ed)"
    by (simp add: bmesh_check_intersect_objects_def bmesh_copy_from_object_def edges_loop_iff)
next
  assume "ray_cast_sound rc \<and> obj_type A = ''MESH'' \<and> name \<noteq> obj_name A \<and>
    (\<forall>v\<in>set (mesh_verts (obj_edges A)). \<forall>ax<3. \<bar>getitem v ax\<bar> \<le> R) \<and>
    ax < 3 \<and> 8 * R + 1 < \<bar>getitem T ax\<bar>"
  then show "bmesh_check_intersect_objects rc A (moved_copy name T A) = Inr False"
    using far_copy_no_intersection [of rc A name R ax T] by blast
qed

theorem intersect_distinct_objects_witness:
  "bmesh_check_intersect_objects bounds_ray_cast tetrahedron tetrahedron_far = Inr False \<and>
   bmesh_check_intersect_objects bounds_ray_cast tetrahedron tetrahedron = Inl AssertionError \<and>
   hit_index (bounds_ray_cast (obj_edges tetrahedron_far) (1000.5, 0.2, 0.2) (1, 0, 0) 1) = 0"
proof -
  note s = ray_cast_sound_bounds
  have t: "obj_type tetrahedron = ''MESH''" by (simp add: tetrahedron_def)
  have n: "''Tetra.001'' \<noteq> obj_name tetrahedron" by (simp add: tetrahedron_def)
  note b = tetrahedron_bounds
  have a: "(0::nat) < 3" by simp
  have f: "8 * 1 + 1 < \<bar>getitem (1000, 0, 0) 0\<bar>" by simp
  note c3 = intersect_distinct_objects [of bounds_ray_cast tetrahedron tetrahedron "''Tetra.001''" 1 0 "(1000, 0, 0)"]
  from c3 s t n b a f
  have "bmesh_check_intersect_objects bounds_ray_cast tetrahedron
          (moved_copy ''Tetra.001'' (1000, 0, 0) tetrahedron) = Inr False" by blast
  then have 1: "bmesh_check_intersect_objects bounds_ray_cast tetrahedron tetrahedron_far
                = Inr False" by (simp add: tetrahedron_far_def)
  from c3 have 2: "bmesh_check_intersect_objects bounds_ray_cast tetrahedron tetrahedron
                   = Inl AssertionError" by blast
  from 1 2 bounds_ray_cast_hits_far show ?thesis by blast
qed

section \<open>Building tasks\<close>

lemma fst_normalized_neg: "fst v < 0 \<Longrightarrow> fst (normalized v) < 0"
proof -
  assume a: "fst v < 0"
  obtain x y z where v: "v = (x, y, z)" by (cases v)
  have "0 \<le> vlength v" by (simp add: v)
  show ?thesis
  proof (cases "vlength v = 0")
    case True
    with a show ?thesis by (simp add: normalized_def)
  next
    case False
    with \<open>0 \<le> vlength v\<close> have "0 < vlength v" by simp
    with a v have "x / vlength v < 0" by (simp add: divide_neg_pos del: vlength.simps)
    with False v show ?thesis by (simp add: normalized_def del: vlength.simps)
  qed
qed

lemma sample_vertex_demo:
  "sample_vertex demo_track demo_target 0 kps (1, 0, 0) = Some (kps @ [((1, 0, 0), (1, 0, 0))])"
proof -
  have n: "fst (normalized (vsub (7 / 8, - (1 / 8), 0) (9 / 8, 1 / 8, 0))) < 0"
    by (rule fst_normalized_neg) simp
  show ?thesis
    using n
    by (simp add: sample_vertex_def probe_pairs_def inside_and_not_inside_def demo_target_def
        pointInsideMesh_demo ray_cast_from_to_def demo_ray_cast_def demo_track_def
        del: vsub.simps)
qed

lemma ContourTrace_build_demo:
  "ContourTrace_build demo_track
     \<lparr>priv_keypoints = kps, TARGET = demo_target, TOOL = demo_tool, center = c,
      plane_normal = n, contour = ct\<rparr> =
   Some (Returns
     \<lparr>priv_keypoints = minimize_objects_angular_distance (sort_key get_angle_z (kps @ [demo_kp])),
      TARGET = demo_target, TOOL = demo_tool, center = c,
      plane_normal = n, contour = Some [(1, 0, 0)]\<rparr>)"
proof -
  have b: "obj_bisect demo_target c n = Slice [(1, 0, 0)]" by (simp add: demo_target_def)
  show ?thesis
    by (simp add: ContourTrace_build_def ContourTrace_build_body_def get_contour_def b
        sample_for_normals_def sample_vertex_demo demo_kp_def)
qed

lemma ContourTrace_build_once:
  "ContourTrace_build demo_track demo_contour =
   Some (Returns (demo_contour\<lparr>priv_keypoints := [demo_kp], contour := Some [(1, 0, 0)]\<rparr>))"
  by (simp add: demo_contour_def ContourTrace_build_demo minimize_single)

lemma ContourTrace_build_twice:
  "ContourTrace_build demo_track
     (demo_contour\<lparr>priv_keypoints := [demo_kp], contour := Some [(1, 0, 0)]\<rparr>) =
   Some (Returns (demo_contour\<lparr>priv_keypoints := [demo_kp, demo_kp], contour := Some [(1, 0, 0)]\<rparr>))"
  by (simp add: demo_contour_def ContourTrace_build_demo)
     (simp add: demo_kp_def minimize_twice_same)

lemma ContourTrace_build_fields:
  assumes "ContourTrace_build track t = Some (Returns t')"
  shows "center t' = center t" and "plane_normal t' = plane_normal t"
    and "TARGET t' = TARGET t" and "TOOL t' = TOOL t"
  using assms
  by (auto simp: ContourTrace_build_def ContourTrace_build_body_def get_contour_def
      sample_for_normals_def split: outcome.splits option.splits slice_result.splits if_splits)

lemma slices_loop_Returns:
  assumes "slices_loop track m axis dv ns = Some (Returns m')"
  shows "length (sub_tasks m') = length (sub_tasks m) + length ns \<and>
         take (length (sub_tasks m)) (sub_tasks m') = sub_tasks m \<and>
         (\<forall>k < length ns.
            center (sub_tasks m' ! (length (sub_tasks m) + k))
              = vadd (start m) (smul dv (of_int (ns ! k))) \<and>
            plane_normal (sub_tasks m' ! (length (sub_tasks m) + k)) = axis) \<and>
         start m' = start m \<and> cuts m' = cuts m \<and> height m' = height m \<and>
         priv_keypoints m' = priv_keypoints m"
  using assms
proof (induction ns arbitrary: m)
  case Nil
  then show ?case by simp
next
  case (Cons i rest)
  let ?co = "vadd (start m) (smul dv (of_int i))"
  from Cons.prems obtain task task' where
    init: "ContourTrace_init (Some (TARGET m)) (Some (TOOL m)) ?co axis = Inr task"
    and built: "ContourTrace_build track task = Some (Returns task')"
    and rest: "slices_loop track (m\<lparr>sub_tasks := sub_tasks m @ [task']\<rparr>) axis dv rest
               = Some (Returns m')"
    by (auto simp: Let_def split: sum.splits option.splits outcome.splits)
  from init have "center task = ?co" "plane_normal task = axis"
    by (auto simp: ContourTrace_init_def CAMTask_init_def)
  with ContourTrace_build_fields [OF built]
  have t': "center task' = ?co" "plane_normal task' = axis" by simp_all
  let ?m1 = "m\<lparr>sub_tasks := sub_tasks m @ [task']\<rparr>"
  note ih = Cons.IH [OF rest]
  have len: "length (sub_tasks m') = length (sub_tasks m) + length (i # rest)"
    using ih by simp
  have tk: "take (Suc (length (sub_tasks m))) (sub_tasks m') = sub_tasks m @ [task']"
    using ih by simp
  have pre: "take (length (sub_tasks m)) (sub_tasks m') = sub_tasks m"
  proof -
    have "take (length (sub_tasks m)) (take (Suc (length (sub_tasks m))) (sub_tasks m'))
          = take (length (sub_tasks m)) (sub_tasks m @ [task'])"
      by (simp only: tk)
    then show ?thesis by simp
  qed
  have first: "sub_tasks m' ! length (sub_tasks m) = task'"
  proof -
    have "take (Suc (length (sub_tasks m))) (sub_tasks m') ! length (sub_tasks m)
          = (sub_tasks m @ [task']) ! length (sub_tasks m)"
      by (simp only: tk)
    then show ?thesis by simp
  qed
  have elems: "\<forall>k < length (i # rest).
            center (sub_tasks m' ! (length (sub_tasks m) + k))
              = vadd (start m) (smul dv (of_int ((i # rest) ! k))) \<and>
            plane_normal (sub_tasks m' ! (length (sub_tasks m) + k)) = axis"
  proof (intro allI impI)
    fix k assume k: "k < length (i # rest)"
    show "center (sub_tasks m' ! (length (sub_tasks m) + k))
              = vadd (start m) (smul dv (of_int ((i # rest) ! k))) \<and>
            plane_normal (sub_tasks m' ! (length (sub_tasks m) + k)) = axis"
    proof (cases k)
      case 0
      with first t' show ?thesis by simp
    next
      case (Suc j)
      with k have "j < length rest" by simp
      with ih have "center (sub_tasks m' ! (length (sub_tasks ?m1) + j))
              = vadd (start ?m1) (smul dv (of_int (rest ! j))) \<and>
            plane_normal (sub_tasks m' ! (length (sub_tasks ?m1) + j)) = axis"
        by blast
      with Suc show ?thesis by simp
    qed
  qed
  from ih have "start m' = start m \<and> cuts m' = cuts m \<and> height m' = height m \<and>
         priv_keypoints m' = priv_keypoints m" by simp
  with len pre elems show ?case by blast
qed

lemma upto_nth': "k < nat (c + 1) \<Longrightarrow> [0 .. c] ! k = int k"
  by (simp add: nth_upto)

lemma fold_get_keypoints:
  "fold (\<lambda>task points. points @ CAMTask_get_keypoints task) ts acc
   = acc @ concat (map priv_keypoints ts)"
  by (induction ts arbitrary: acc) (simp_all add: CAMTask_get_keypoints_def)

lemma MultiContourTrace_get_keypoints_concat:
  "MultiContourTrace_get_keypoints m = concat (map priv_keypoints (sub_tasks m))"
  by (simp add: MultiContourTrace_get_keypoints_def fold_get_keypoints)

lemma MultiContourTrace_build_Returns:
  assumes "MultiContourTrace_build track m = Some (Returns m')"
    and "sub_tasks m = []"
  shows "cuts m \<noteq> 0"
    and "length (sub_tasks m') = nat (cuts m + 1)"
    and "\<forall>k < nat (cuts m + 1).
           center (sub_tasks m' ! k)
             = vadd (start m) (smul (0, 0, 1) (real k * (height m / of_int (cuts m)))) \<and>
           plane_normal (sub_tasks m' ! k) = (0, 0, height m)"
proof -
  obtain x y z where st: "start m = (x, y, z)" by (cases "start m")
  from assms(1) show c: "cuts m \<noteq> 0"
    by (auto simp: MultiContourTrace_build_def MultiContourTrace_build_body_def Let_def
        split: if_splits)
  with assms(1) st have
    "slices_loop track m (0, 0, height m) (sdiv (0, 0, height m) (of_int (cuts m))) [0 .. cuts m]
     = Some (Returns m')"
    by (simp add: MultiContourTrace_build_def MultiContourTrace_build_body_def Let_def)
  note r = slices_loop_Returns [OF this]
  from r assms(2) show "length (sub_tasks m') = nat (cuts m + 1)" by simp
  show "\<forall>k < nat (cuts m + 1).
           center (sub_tasks m' ! k)
             = vadd (start m) (smul (0, 0, 1) (real k * (height m / of_int (cuts m)))) \<and>
           plane_normal (sub_tasks m' ! k) = (0, 0, height m)"
  proof (intro allI impI)
    fix k assume k: "k < nat (cuts m + 1)"
    then have "k < length [0 .. cuts m]" by simp
    with r assms(2) have
      "center (sub_tasks m' ! k)
         = vadd (start m) (smul (sdiv (0, 0, height m) (of_int (cuts m))) (of_int ([0 .. cuts m] ! k)))
       \<and> plane_normal (sub_tasks m' ! k) = (0, 0, height m)"
      by (metis add_0 list.size(3))
    with k st show "center (sub_tasks m' ! k)
             = vadd (start m) (smul (0, 0, 1) (real k * (height m / of_int (cuts m)))) \<and>
           plane_normal (sub_tasks m' ! k) = (0, 0, height m)"
      by (simp add: upto_nth' mult.commute)
  qed
qed

lemma slices_loop_total:
  assumes "\<forall>i\<in>set ns. \<exists>t. ContourTrace_build track
             \<lparr>priv_keypoints = [], TARGET = TARGET m, TOOL = TOOL m,
              center = vadd (start m) (smul dv (of_int i)), plane_normal = axis,
              contour = None\<rparr> = Some (Returns t)"
  shows "\<exists>ts. slices_loop track m axis dv ns = Some (Returns (m\<lparr>sub_tasks := sub_tasks m @ ts\<rparr>)) \<and>
           length ts = length ns \<and>
           (\<forall>j<length ns. ContourTrace_build track
               \<lparr>priv_keypoints = [], TARGET = TARGET m, TOOL = TOOL m,
                center = vadd (start m) (smul dv (of_int (ns ! j))), plane_normal = axis,
                contour = None\<rparr> = Some (Returns (ts ! j)))"
  using assms
proof (induction ns arbitrary: m)
  case Nil
  show ?case by simp
next
  case (Cons i rest)
  let ?task = "\<lparr>priv_keypoints = [], TARGET = TARGET m, TOOL = TOOL m,
              center = vadd (start m) (smul dv (of_int i)), plane_normal = axis,
              contour = None\<rparr>"
  from Cons.prems obtain t where t: "ContourTrace_build track ?task = Some (Returns t)"
    by auto
  let ?m1 = "m\<lparr>sub_tasks := sub_tasks m @ [t]\<rparr>"
  have init: "ContourTrace_init (Some (TARGET m)) (Some (TOOL m))
                (vadd (start m) (smul dv (of_int i))) axis = Inr ?task"
    by (simp add: ContourTrace_init_def CAMTask_init_def)
  have step: "slices_loop track m axis dv (i # rest) = slices_loop track ?m1 axis dv rest"
    using init t by (simp add: Let_def)
  from Cons.prems have "\<forall>i\<in>set rest. \<exists>t. ContourTrace_build track
             \<lparr>priv_keypoints = [], TARGET = TARGET ?m1, TOOL = TOOL ?m1,
              center = vadd (start ?m1) (smul dv (of_int i)), plane_normal = axis,
              contour = None\<rparr> = Some (Returns t)"
    by simp
  from Cons.IH [OF this] obtain ts where
    r: "slices_loop track ?m1 axis dv rest = Some (Returns (?m1\<lparr>sub_tasks := sub_tasks ?m1 @ ts\<rparr>))"
    and len: "length ts = length rest"
    and each: "\<forall>j<length rest. ContourTrace_build track
               \<lparr>priv_keypoints = [], TARGET = TARGET ?m1, TOOL = TOOL ?m1,
                center = vadd (start ?m1) (smul dv (of_int (rest ! j))), plane_normal = axis,
                contour = None\<rparr> = Some (Returns (ts ! j))"
    by blast
  have 1: "slices_loop track m axis dv (i # rest)
           = Some (Returns (m\<lparr>sub_tasks := sub_tasks m @ (t # ts)\<rparr>))"
    using step r by simp
  have 2: "length (t # ts) = length (i # rest)" using len by simp
  have 3: "\<forall>j<length (i # rest). ContourTrace_build track
               \<lparr>priv_keypoints = [], TARGET = TARGET m, TOOL = TOOL m,
                center = vadd (start m) (smul dv (of_int ((i # rest) ! j))), plane_normal = axis,
                contour = None\<rparr> = Some (Returns ((t # ts) ! j))"
  proof (intro allI impI)
    fix j assume j: "j < length (i # rest)"
    show "ContourTrace_build track
               \<lparr>priv_keypoints = [], TARGET = TARGET m, TOOL = TOOL m,
                center = vadd (start m) (smul dv (of_int ((i # rest) ! j))), plane_normal = axis,
                contour = None\<rparr> = Some (Returns ((t # ts) ! j))"
    proof (cases j)
      case 0
      with t show ?thesis by simp
    next
      case (Suc j')
      with j have "j' < length rest" by simp
      with each Suc show ?thesis by simp
    qed
  qed
  from 1 2 3 show ?case by blast
qed

lemma MultiContourTrace_build_normals:
  assumes "MultiContourTrace_init target tool st h c pn = Inr m"
    and "MultiContourTrace_build track m = Some (Returns m')"
  shows "\<forall>task\<in>set (sub_tasks m'). plane_normal task = (0, 0, h)"
proof
  fix task assume "task \<in> set (sub_tasks m')"
  then obtain k where k: "k < length (sub_tasks m')" "sub_tasks m' ! k = task"
    by (auto simp: in_set_conv_nth)
  from assms(1) have f: "sub_tasks m = []" "height m = h"
    by (auto simp: MultiContourTrace_init_def CAMTask_init_def split: option.splits sum.splits)
  note b = MultiContourTrace_build_Returns [OF assms(2) f(1)]
  from b(2) k(1) have "k < nat (cuts m + 1)" by simp
  with b(3) have "plane_normal (sub_tasks m' ! k) = (0, 0, height m)" by blast
  with k(2) f(2) show "plane_normal task = (0, 0, h)" by simp
qed

lemma upto_0_3: "[0 .. 3 :: int] = [0, 1, 2, 3]"
  by (simp add: upto.simps)

lemma upto_0_1: "[0 .. 1 :: int] = [0, 1]"
  by (simp add: upto.simps)

lemma ContourTrace_init_demo:
  "ContourTrace_init (Some demo_target) (Some demo_tool) c n =
   Inr \<lparr>priv_keypoints = [], TARGET = demo_target, TOOL = demo_tool, center = c,
        plane_normal = n, contour = None\<rparr>"
  by (simp add: ContourTrace_init_def CAMTask_init_def)

lemma slices_loop_demo_step:
  "TARGET m = demo_target \<Longrightarrow> TOOL m = demo_tool \<Longrightarrow>
   slices_loop demo_track m axis dv (i # rest) =
   slices_loop demo_track
     (m\<lparr>sub_tasks := sub_tasks m @
        [\<lparr>priv_keypoints = [demo_kp], TARGET = demo_target, TOOL = demo_tool,
          center = vadd (start m) (smul dv (of_int i)), plane_normal = axis,
          contour = Some [(1, 0, 0)]\<rparr>]\<rparr>) axis dv rest"
  by (simp add: ContourTrace_init_demo ContourTrace_build_demo minimize_single Let_def)

lemma MultiContourTrace_build_demo:
  "MultiContourTrace_build demo_track demo_multi =
   Some (Returns demo_multi_built)"
  by (simp add: MultiContourTrace_build_def MultiContourTrace_build_body_def demo_multi_def
      demo_multi_built_def
      upto_0_3 slices_loop_demo_step demo_slice_def Let_def del: slices_loop.simps(2))

lemma MultiContourTrace_init_demo:
  "MultiContourTrace_init (Some demo_target) (Some demo_tool) (0, 0, 0) 0.5 3 pn = Inr demo_multi"
  by (simp add: MultiContourTrace_init_def CAMTask_init_def demo_multi_def)

lemma MultiContourTrace_build_demo1:
  "MultiContourTrace_build demo_track (demo_multi1\<lparr>sub_tasks := ts\<rparr>) =
   Some (Returns (demo_multi1\<lparr>sub_tasks := ts @ [demo_slice1 0, demo_slice1 1]\<rparr>))"
  by (simp add: MultiContourTrace_build_def MultiContourTrace_build_body_def demo_multi_def
      demo_multi1_def upto_0_1 slices_loop_demo_step demo_slice1_def Let_def
      del: slices_loop.simps(2))

lemma CAMTask_build_demo_contour:
  "CAMTask_build demo_track (Contour demo_contour) = Some (Returns (Contour demo_contour_built))"
  by (simp add: ContourTrace_build_once demo_contour_built_def)

lemma CAMTask_build_demo_plain:
  "CAMTask_build demo_track (Plain demo_plain) = Some (Raises NotImplementedError (Plain demo_plain))"
  by (simp add: CAMTask_build_body_def)

text \<open>
Claim C2, at a task that is built twice. The second build of a \<^verbatim>\<open>ContourTrace\<close> appends
  its samples to the keypoints of the first build, and the second build of a
  \<^verbatim>\<open>MultiContourTrace\<close> appends its sub-tasks to those of the first build: one keypoint
  becomes two, two sub-tasks become four.
\<close>

theorem rebuild_appends:
  "(case ContourTrace_build demo_track demo_contour of
      Some (Returns once) \<Rightarrow>
        (case ContourTrace_build demo_track once of
           Some (Returns twice) \<Rightarrow>
             CAMTask_get_keypoints once = [demo_kp] \<and>
             CAMTask_get_keypoints twice = [demo_kp, demo_kp]
         | _ \<Rightarrow> False)
    | _ \<Rightarrow> False) \<and>
   (case MultiContourTrace_build demo_track demo_multi1 of
      Some (Returns once) \<Rightarrow>
        (case MultiContourTrace_build demo_track once of
           Some (Returns twice) \<Rightarrow>
             length (sub_tasks once) = 2 \<and> length (sub_tasks twice) = 4 \<and>
             MultiContourTrace_get_keypoints once = [demo_kp, demo_kp] \<and>
             MultiContourTrace_get_keypoints twice = [demo_kp, demo_kp, demo_kp, demo_kp]
         | _ \<Rightarrow> False)
    | _ \<Rightarrow> False)"
proof -
  have a: "MultiContourTrace_build demo_track demo_multi1 =
     Some (Returns (demo_multi1\<lparr>sub_tasks := [demo_slice1 0, demo_slice1 1]\<rparr>))"
    using MultiContourTrace_build_demo1 [of "[]"]
    by (simp add: demo_multi1_def demo_multi_def)
  have b: "MultiContourTrace_build demo_track
             (demo_multi1\<lparr>sub_tasks := [demo_slice1 0, demo_slice1 1]\<rparr>) =
     Some (Returns (demo_multi1\<lparr>sub_tasks :=
        [demo_slice1 0, demo_slice1 1, demo_slice1 0, demo_slice1 1]\<rparr>))"
    using MultiContourTrace_build_demo1 [of "[demo_slice1 0, demo_slice1 1]"] by simp
  have c: "length (sub_tasks (demo_multi1\<lparr>sub_tasks := [demo_slice1 0, demo_slice1 1]\<rparr>)) = 2 \<and>
     length (sub_tasks (demo_multi1\<lparr>sub_tasks :=
        [demo_slice1 0, demo_slice1 1, demo_slice1 0, demo_slice1 1]\<rparr>)) = 4 \<and>
     MultiContourTrace_get_keypoints (demo_multi1\<lparr>sub_tasks := [demo_slice1 0, demo_slice1 1]\<rparr>)
       = [demo_kp, demo_kp] \<and>
     MultiContourTrace_get_keypoints (demo_multi1\<lparr>sub_tasks :=
        [demo_slice1 0, demo_slice1 1, demo_slice1 0, demo_slice1 1]\<rparr>)
       = [demo_kp, demo_kp, demo_kp, demo_kp]"
    by (simp add: CAMTask_get_keypoints_def MultiContourTrace_get_keypoints_def demo_slice1_def)
  have d: "CAMTask_get_keypoints demo_contour_built = [demo_kp] \<and>
     CAMTask_get_keypoints demo_contour_rebuilt = [demo_kp, demo_kp]"
    by (simp add: CAMTask_get_keypoints_def demo_contour_built_def demo_contour_rebuilt_def)
  have e: "ContourTrace_build demo_track demo_contour = Some (Returns demo_contour_built)"
    by (simp add: ContourTrace_build_once demo_contour_built_def)
  have f: "ContourTrace_build demo_track demo_contour_built = Some (Returns demo_contour_rebuilt)"
    by (simp add: ContourTrace_build_twice demo_contour_built_def demo_contour_rebuilt_def)
  show ?thesis
    using c d by (simp only: a b e f option.case outcome.case)
qed

theorem rebuild_appends_witness:
  "map_option (map_outcome CAMTask_get_keypoints) (ContourTrace_build demo_track demo_contour)
     = Some (Returns [demo_kp]) \<and>
   map_option (map_outcome (\<lambda>m. length (sub_tasks m)))
     (MultiContourTrace_build demo_track demo_multi1) = Some (Returns 2)"
  using rebuild_appends by (auto split: option.splits outcome.splits)

text \<open>
Claim C5, at a target whose mesh cannot be sliced: the build of a \<^verbatim>\<open>MultiContourTrace\<close>
  with three cuts raises what the host raised and leaves no sub-task.
\<close>

theorem multi_contour_failing_slice_counterexample:
  "MultiContourTrace_init (Some failing_target) (Some demo_tool) (0, 0, 0) 0.5 3 (0, 0, 1)
     = Inr failing_multi \<and>
   MultiContourTrace_build demo_track failing_multi = Some (Raises HostError failing_multi) \<and>
   sub_tasks failing_multi = []"
  by (simp add: MultiContourTrace_init_def CAMTask_init_def failing_multi_def
      MultiContourTrace_build_def MultiContourTrace_build_body_def Let_def upto_0_3
      ContourTrace_init_def ContourTrace_build_def ContourTrace_build_body_def
      get_contour_def failing_target_def)

text \<open>
Claim C5, as the code has it. When the build of each of the \<open>c + 1\<close> slices returns, the
  build of a \<^verbatim>\<open>MultiContourTrace\<close> constructed with \<open>c \<ge> 1\<close> cuts and height \<open>h\<close> returns, with
  \<open>c + 1\<close> sub-tasks; sub-task \<open>i\<close> is the built slice \<open>i\<close>, with the center
  \<open>start + i (h / c) z\<close> and the plane normal \<open>(0, 0, h)\<close>, which is the vector from
  start to end; \<^verbatim>\<open>get_keypoints\<close> is the concatenation of the sub-tasks' keypoints in
  this order, and its length the sum of their lengths.
\<close>

theorem multi_contour_slices:
  assumes "MultiContourTrace_init target tool st h c pn = Inr m"
    and "1 \<le> c"
    and "\<forall>i\<in>{0..c}. \<exists>t. ContourTrace_build track (slice_task m i) = Some (Returns t)"
  shows "\<exists>m'. MultiContourTrace_build track m = Some (Returns m') \<and>
           length (sub_tasks m') = nat c + 1 \<and>
           (\<forall>i \<le> nat c.
              ContourTrace_build track (slice_task m (int i)) = Some (Returns (sub_tasks m' ! i)) \<and>
              center (sub_tasks m' ! i) = vadd st (smul (0, 0, 1) (real i * (h / of_int c))) \<and>
              plane_normal (sub_tasks m' ! i) = (0, 0, h)) \<and>
           MultiContourTrace_get_keypoints m'
             = concat (map CAMTask_get_keypoints (sub_tasks m')) \<and>
           length (MultiContourTrace_get_keypoints m')
             = sum_list (map (\<lambda>task. length (CAMTask_get_keypoints task)) (sub_tasks m'))"
proof -
  from assms(1) have f: "sub_tasks m = []" "start m = st" "cuts m = c" "height m = h"
    by (auto simp: MultiContourTrace_init_def CAMTask_init_def split: option.splits sum.splits)
  obtain x y z where st: "st = (x, y, z)" by (cases st)
  have sl: "\<And>i. slice_task m i =
      \<lparr>priv_keypoints = [], TARGET = TARGET m, TOOL = TOOL m,
       center = vadd (start m) (smul (sdiv (0, 0, h) (of_int c)) (of_int i)),
       plane_normal = (0, 0, h), contour = None\<rparr>"
    using f st by (simp add: slice_task_def Let_def)
  have "\<forall>i\<in>set [0 .. c]. \<exists>t. ContourTrace_build track
             \<lparr>priv_keypoints = [], TARGET = TARGET m, TOOL = TOOL m,
              center = vadd (start m) (smul (sdiv (0, 0, h) (of_int c)) (of_int i)),
              plane_normal = (0, 0, h), contour = None\<rparr> = Some (Returns t)"
    using assms(3) unfolding sl by simp
  from slices_loop_total [OF this] obtain ts where
    r: "slices_loop track m (0, 0, h) (sdiv (0, 0, h) (of_int c)) [0 .. c]
        = Some (Returns (m\<lparr>sub_tasks := sub_tasks m @ ts\<rparr>))"
    and len: "length ts = length [0 .. c]"
    and each: "\<forall>j<length [0 .. c]. ContourTrace_build track
               \<lparr>priv_keypoints = [], TARGET = TARGET m, TOOL = TOOL m,
                center = vadd (start m) (smul (sdiv (0, 0, h) (of_int c)) (of_int ([0 .. c] ! j))),
                plane_normal = (0, 0, h), contour = None\<rparr> = Some (Returns (ts ! j))"
    by blast
  let ?m' = "m\<lparr>sub_tasks := sub_tasks m @ ts\<rparr>"
  from assms(2) have c0: "c \<noteq> 0" by simp
  have b: "MultiContourTrace_build track m = Some (Returns ?m')"
    using r f st c0
    by (simp add: MultiContourTrace_build_def MultiContourTrace_build_body_def Let_def)
  note p = MultiContourTrace_build_Returns [OF b f(1)]
  from assms(2) have n: "nat (c + 1) = nat c + 1" by simp
  have sub: "sub_tasks ?m' = ts" using f by simp
  have "CAMTask_get_keypoints = (priv_keypoints :: contour_trace \<Rightarrow> pose list)"
    by (rule ext) (simp add: CAMTask_get_keypoints_def)
  then have g: "MultiContourTrace_get_keypoints ?m'
      = concat (map CAMTask_get_keypoints (sub_tasks ?m'))"
    by (simp add: MultiContourTrace_get_keypoints_concat)
  have gl: "length (concat (map CAMTask_get_keypoints (sub_tasks ?m')))
        = sum_list (map (\<lambda>task. length (CAMTask_get_keypoints task)) (sub_tasks ?m'))"
    by (simp add: length_concat comp_def)
  have e: "\<forall>i \<le> nat c.
              ContourTrace_build track (slice_task m (int i)) = Some (Returns (sub_tasks ?m' ! i)) \<and>
              center (sub_tasks ?m' ! i) = vadd st (smul (0, 0, 1) (real i * (h / of_int c))) \<and>
              plane_normal (sub_tasks ?m' ! i) = (0, 0, h)"
  proof (intro allI impI)
    fix i assume "i \<le> nat c"
    with n have i: "i < nat (c + 1)" by simp
    then have il: "i < length [0 .. c]" by simp
    from i have nth: "[0 .. c] ! i = int i" by (rule upto_nth')
    from each il nth have "ContourTrace_build track (slice_task m (int i)) = Some (Returns (ts ! i))"
      unfolding sl by simp
    moreover from p(3) i f have "center (sub_tasks ?m' ! i)
        = vadd st (smul (0, 0, 1) (real i * (h / of_int c))) \<and>
        plane_normal (sub_tasks ?m' ! i) = (0, 0, h)" by simp
    ultimately show "ContourTrace_build track (slice_task m (int i))
                = Some (Returns (sub_tasks ?m' ! i)) \<and>
              center (sub_tasks ?m' ! i) = vadd st (smul (0, 0, 1) (real i * (h / of_int c))) \<and>
              plane_normal (sub_tasks ?m' ! i) = (0, 0, h)"
      unfolding sub by simp
  qed
  from p(2) f n have l: "length (sub_tasks ?m') = nat c + 1" by simp
  show ?thesis
  proof (intro exI [of _ ?m'] conjI)
    show "MultiContourTrace_build track m = Some (Returns ?m')" by (rule b)
    show "length (sub_tasks ?m') = nat c + 1" by (rule l)
    show "\<forall>i \<le> nat c.
              ContourTrace_build track (slice_task m (int i)) = Some (Returns (sub_tasks ?m' ! i)) \<and>
              center (sub_tasks ?m' ! i) = vadd st (smul (0, 0, 1) (real i * (h / of_int c))) \<and>
              plane_normal (sub_tasks ?m' ! i) = (0, 0, h)" by (rule e)
    show "MultiContourTrace_get_keypoints ?m'
      = concat (map CAMTask_get_keypoints (sub_tasks ?m'))" by (rule g)
    show "length (MultiContourTrace_get_keypoints ?m')
        = sum_list (map (\<lambda>task. length (CAMTask_get_keypoints task)) (sub_tasks ?m'))"
      unfolding g by (rule gl)
  qed
qed

theorem multi_contour_slices_witness:
  "\<exists>m'. MultiContourTrace_build demo_track demo_multi = Some (Returns m') \<and>
     length (sub_tasks m') = 4 \<and>
     map center (sub_tasks m') = [(0, 0, 0), (0, 0, 0.5 / 3), (0, 0, 1 / 3), (0, 0, 0.5)] \<and>
     plane_normal (sub_tasks m' ! 1) = (0, 0, 0.5)"
proof -
  have a: "MultiContourTrace_init (Some demo_target) (Some demo_tool) (0, 0, 0) 0.5 3 (0, 0, 1)
     = Inr demo_multi" by (rule MultiContourTrace_init_demo)
  have b: "(1::int) \<le> 3" by simp
  have c: "\<forall>i\<in>{0..3}. \<exists>t. ContourTrace_build demo_track (slice_task demo_multi i) = Some (Returns t)"
    by (simp add: slice_task_def demo_multi_def Let_def ContourTrace_build_demo)
  from multi_contour_slices [OF a b c] obtain m' where
    r: "MultiContourTrace_build demo_track demo_multi = Some (Returns m')"
       "length (sub_tasks m') = nat 3 + 1"
       "\<forall>i \<le> nat 3.
          ContourTrace_build demo_track (slice_task demo_multi (int i))
            = Some (Returns (sub_tasks m' ! i)) \<and>
          center (sub_tasks m' ! i) = vadd (0, 0, 0) (smul (0, 0, 1) (real i * (0.5 / of_int 3))) \<and>
          plane_normal (sub_tasks m' ! i) = (0, 0, 0.5)"
    by blast
  from r(2) have l: "length (sub_tasks m') = 4" by simp
  have i0: "(0::nat) \<le> nat 3" and i1: "(1::nat) \<le> nat 3" and i2: "(2::nat) \<le> nat 3"
    and i3: "(3::nat) \<le> nat 3" by simp_all
  from spec [OF r(3), of 0] i0 have c0: "center (sub_tasks m' ! 0) = (0, 0, 0)" by simp
  from spec [OF r(3), of 1] i1 have c1: "center (sub_tasks m' ! 1) = (0, 0, 0.5 / 3)"
    and n1: "plane_normal (sub_tasks m' ! 1) = (0, 0, 0.5)" by simp_all
  from spec [OF r(3), of 2] i2 have c2: "center (sub_tasks m' ! 2) = (0, 0, 1 / 3)" by simp
  from spec [OF r(3), of 3] i3 have c3: "center (sub_tasks m' ! 3) = (0, 0, 0.5)" by simp
  have "map center (sub_tasks m') = [(0, 0, 0), (0, 0, 0.5 / 3), (0, 0, 1 / 3), (0, 0, 0.5)]"
  proof (rule nth_equalityI)
    show "length (map center (sub_tasks m'))
          = length [(0, 0, 0), (0, 0, 0.5 / 3), (0, 0, 1 / 3), (0, 0, 0.5 :: real)]"
      using l by simp
  next
    fix i assume "i < length (map center (sub_tasks m'))"
    with l have "i = 0 \<or> i = 1 \<or> i = 2 \<or> i = 3" by auto
    with l c0 c1 c2 c3
    show "map center (sub_tasks m') ! i
          = [(0, 0, 0), (0, 0, 0.5 / 3), (0, 0, 1 / 3), (0, 0, 0.5)] ! i"
      by auto
  qed
  with r(1) l n1 show ?thesis by (intro exI [of _ m']) simp
qed

text \<open>
Claim C10. The constructor of \<^verbatim>\<open>MultiContourTrace\<close> yields the same task for any two
  values of \<^verbatim>\<open>plane_normal\<close>, so the builds of the two tasks agree; and every sub-task of a
  build that returns has the plane normal \<open>(0, 0, height)\<close>.
\<close>

theorem plane_normal_argument_ignored:
  "MultiContourTrace_init target tool st h c pn = MultiContourTrace_init target tool st h c pn' \<and>
   map_sum id (MultiContourTrace_build track) (MultiContourTrace_init target tool st h c pn)
     = map_sum id (MultiContourTrace_build track) (MultiContourTrace_init target tool st h c pn') \<and>
   (MultiContourTrace_init target tool st h c pn = Inr m \<and>
    MultiContourTrace_build track m = Some (Returns m') \<longrightarrow>
      (\<forall>task\<in>set (sub_tasks m'). plane_normal task = (0, 0, h)))"
proof (intro conjI impI)
  show i: "MultiContourTrace_init target tool st h c pn
           = MultiContourTrace_init target tool st h c pn'"
    by (simp add: MultiContourTrace_init_def)
  then show "map_sum id (MultiContourTrace_build track) (MultiContourTrace_init target tool st h c pn)
     = map_sum id (MultiContourTrace_build track) (MultiContourTrace_init target tool st h c pn')"
    by simp
next
  assume "MultiContourTrace_init target tool st h c pn = Inr m \<and>
    MultiContourTrace_build track m = Some (Returns m')"
  then show "\<forall>task\<in>set (sub_tasks m'). plane_normal task = (0, 0, h)"
    using MultiContourTrace_build_normals by blast
qed

theorem plane_normal_argument_ignored_witness:
  "MultiContourTrace_init (Some demo_target) (Some demo_tool) (0, 0, 0) 0.5 3 (1, 0, 0)
     = Inr demo_multi \<and>
   plane_normal (sub_tasks demo_multi_built ! 3) = (0, 0, 0.5)"
proof -
  have a: "MultiContourTrace_init (Some demo_target) (Some demo_tool) (0, 0, 0) 0.5 3 (0, 0, 1)
     = Inr demo_multi" by (rule MultiContourTrace_init_demo)
  note b = MultiContourTrace_build_demo
  note r = plane_normal_argument_ignored [of "Some demo_target" "Some demo_tool" "(0, 0, 0)" "0.5" 3 "(0, 0, 1)" "(1, 0, 0)"
               demo_track demo_multi demo_multi_built]
  from r a have i: "MultiContourTrace_init (Some demo_target) (Some demo_tool) (0, 0, 0) 0.5 3
     (1, 0, 0) = Inr demo_multi" by simp
  from r a b have n: "\<forall>task\<in>set (sub_tasks demo_multi_built). plane_normal task = (0, 0, 0.5)"
    by blast
  have "sub_tasks demo_multi_built ! 3 \<in> set (sub_tasks demo_multi_built)"
    by (rule nth_mem) (simp add: demo_multi_built_def)
  with n have "plane_normal (sub_tasks demo_multi_built ! 3) = (0, 0, 0.5)" by blast
  with i show ?thesis by simp
qed

section \<open>Building a job\<close>

lemma tasks_loop_raise:
  assumes "\<forall>p\<in>set pre. \<exists>p'. CAMTask_build track p = Some (Returns p')"
    and "CAMTask_build track t = Some (Raises e t')"
  shows "tasks_loop track s built (pre @ t # post) =
         Some (Raises e (s\<lparr>tasks := built @ map (after_build track) pre @ t' # post\<rparr>))"
  using assms(1)
proof (induction pre arbitrary: built)
  case Nil
  with assms(2) show ?case by simp
next
  case (Cons p pre)
  then obtain p' where p: "CAMTask_build track p = Some (Returns p')" by auto
  then have a: "after_build track p = p'" by (simp add: after_build_def)
  from Cons.prems have "\<forall>q\<in>set pre. \<exists>q'. CAMTask_build track q = Some (Returns q')" by simp
  from Cons.IH [OF this, of "built @ [p']"] p a show ?case by simp
qed

lemma tasks_loop_all:
  assumes "\<forall>p\<in>set ts. \<exists>p'. CAMTask_build track p = Some (Returns p')"
  shows "tasks_loop track s built ts =
         Some (Returns (s\<lparr>tasks := built @ map (after_build track) ts\<rparr>))"
  using assms
proof (induction ts arbitrary: built)
  case Nil
  show ?case by simp
next
  case (Cons p ts)
  then obtain p' where p: "CAMTask_build track p = Some (Returns p')" by auto
  then have a: "after_build track p = p'" by (simp add: after_build_def)
  from Cons.prems have "\<forall>q\<in>set ts. \<exists>q'. CAMTask_build track q = Some (Returns q')" by simp
  from Cons.IH [OF this, of "built @ [p']"] p a show ?case by simp
qed

lemma tasks_loop_keypoints:
  "tasks_loop track s built ts = Some (Returns s') \<Longrightarrow> keypoints s' = keypoints s"
  by (induction ts arbitrary: built) (auto split: option.splits outcome.splits)

lemma XYZIJK_Job_build_keypoints:
  "XYZIJK_Job_build track data_objects j = Some (Returns j') \<Longrightarrow> keypoints j' = []"
  by (auto simp: XYZIJK_Job_build_def dest!: tasks_loop_keypoints
      split: option.splits if_splits)

text \<open>
Claim C1, at a job with one \<^verbatim>\<open>ContourTrace\<close>. The build of the job returns; the task
  then has one keypoint, and the keypoints of the job are empty.
\<close>

theorem job_build_keeps_no_keypoints:
  "(case XYZIJK_Job_build demo_track [''TARGET'', ''tool_control'']
           \<lparr>job_TOOL = Some demo_tool, job_TARGET = Some demo_target,
            tasks = [Contour demo_contour], keypoints = []\<rparr> of
      Some (Returns j) \<Rightarrow>
        keypoints j = [] \<and> concat (map get_keypoints (tasks j)) = [demo_kp]
    | _ \<Rightarrow> False)"
  by (simp add: XYZIJK_Job_build_def demo_tool_def demo_target_def)
     (simp add: CAMTask_build_demo_contour [simplified demo_tool_def demo_target_def]
        ContourTrace_build_once [simplified demo_tool_def demo_target_def]
        demo_contour_built_def CAMTask_get_keypoints_def)

theorem job_build_keeps_no_keypoints_witness:
  "map_option (map_outcome keypoints)
     (XYZIJK_Job_build demo_track [''TARGET'', ''tool_control'']
        \<lparr>job_TOOL = Some demo_tool, job_TARGET = Some demo_target,
         tasks = [Contour demo_contour], keypoints = []\<rparr>)
   = Some (Returns [])"
  using job_build_keeps_no_keypoints by (auto split: option.splits outcome.splits)

text \<open>
Claim C6. When the tasks before task \<open>t\<close> build and the build of \<open>t\<close> raises \<open>e\<close>, the
  build of the job raises \<open>e\<close>; the tasks before \<open>t\<close> are left as their builds left them,
  \<open>t\<close> as its failed build left it, and the tasks after \<open>t\<close> as they were.
\<close>

theorem job_build_propagates_failure:
  assumes "job_TOOL j = Some tool" and "job_TARGET j = Some target"
    and "obj_name tool \<in> set data_objects" and "obj_name target \<in> set data_objects"
    and "tasks j = pre @ t # post"
    and "\<forall>p\<in>set pre. \<exists>p'. CAMTask_build track p = Some (Returns p')"
    and "CAMTask_build track t = Some (Raises e t')"
  shows "XYZIJK_Job_build track data_objects j =
         Some (Raises e (j\<lparr>keypoints := [],
                           tasks := map (after_build track) pre @ t' # post\<rparr>))"
  using assms(1-5) tasks_loop_raise [OF assms(6,7), of "j\<lparr>keypoints := []\<rparr>" "[]" post]
  by (simp add: XYZIJK_Job_build_def)

theorem job_build_propagates_failure_witness:
  "XYZIJK_Job_build demo_track [''TARGET'', ''tool_control''] demo_failing_job =
     Some (Raises NotImplementedError
       (demo_failing_job\<lparr>keypoints := [],
          tasks := [Contour demo_contour_built, Plain demo_plain, Contour demo_contour]\<rparr>))"
proof -
  have a: "job_TOOL demo_failing_job = Some demo_tool"
    and b: "job_TARGET demo_failing_job = Some demo_target"
    and e: "tasks demo_failing_job
            = [Contour demo_contour] @ Plain demo_plain # [Contour demo_contour]"
    by (simp_all add: demo_failing_job_def)
  have c: "obj_name demo_tool \<in> set [''TARGET'', ''tool_control'']"
    and d: "obj_name demo_target \<in> set [''TARGET'', ''tool_control'']"
    by (simp_all add: demo_tool_def demo_target_def)
  have f: "\<forall>p\<in>set [Contour demo_contour]. \<exists>p'. CAMTask_build demo_track p = Some (Returns p')"
    by (simp del: CAMTask_build.simps add: CAMTask_build_demo_contour)
  note g = CAMTask_build_demo_plain
  have h: "map (after_build demo_track) [Contour demo_contour] = [Contour demo_contour_built]"
    by (simp del: CAMTask_build.simps add: CAMTask_build_demo_contour after_build_def)
  from job_build_propagates_failure [OF a b c d e f g] show ?thesis by (simp only: h append.simps)
qed

section \<open>Copies of keypoints\<close>

lemma view_frame:
  assumes "\<forall>a<L. \<forall>b\<in>set (refs (s ! a)). b < L"
    and "L \<le> length s" and "L \<le> length t" and "take L t = take L s"
  shows "a < L \<Longrightarrow> view m t a = view m s a"
proof (induction m arbitrary: a)
  case 0
  show ?case by simp
next
  case (Suc m)
  from assms(4) Suc.prems have e: "t ! a = s ! a"
    by (metis nth_take)
  show ?case
  proof (cases "s ! a")
    case (Floats v)
    with e Suc.prems assms(2,3) show ?thesis by simp
  next
    case (PyListObj its)
    with assms(1) Suc.prems have "\<forall>b\<in>set its. b < L" by fastforce
    with Suc.IH have "map (\<lambda>b. view m t b) its = map (\<lambda>b. view m s b) its" by simp
    with PyListObj e Suc.prems assms(2,3) show ?thesis by simp
  qed
qed

lemma inv_store_closed:
  assumes "inv_store L s" and "a < length s" and "b \<in> set (refs (s ! a))"
  shows "b < length s"
proof (cases "a < L")
  case True
  with assms(1,3) have "b < L" unfolding inv_store_def by blast
  moreover from assms(1) have "L \<le> length s" unfolding inv_store_def by blast
  ultimately show ?thesis by simp
next
  case False
  then have "L \<le> a" by simp
  with assms show ?thesis unfolding inv_store_def by blast
qed

lemma view_append:
  assumes "inv_store L s" and "a < length s"
  shows "view m (s @ ext) a = view m s a"
proof -
  have "\<forall>a<length s. \<forall>b\<in>set (refs (s ! a)). b < length s"
    using assms(1) inv_store_closed by blast
  then show ?thesis using assms(2) by (intro view_frame) simp_all
qed

lemma inv_store_append:
  assumes "inv_store L s" and "\<forall>b\<in>set (refs ob). L \<le> b \<and> b < length s"
  shows "inv_store L (s @ [ob])"
proof -
  from assms(1) have Ls: "L \<le> length s"
    and old: "\<And>a b. a < L \<Longrightarrow> b \<in> set (refs (s ! a)) \<Longrightarrow> b < L"
    and new: "\<And>a b. L \<le> a \<Longrightarrow> a < length s \<Longrightarrow> b \<in> set (refs (s ! a)) \<Longrightarrow>
                L \<le> b \<and> b < length s"
    unfolding inv_store_def by blast+
  have 1: "L \<le> length (s @ [ob])" using Ls by simp
  have 2: "\<forall>a<L. \<forall>b\<in>set (refs ((s @ [ob]) ! a)). b < L"
  proof (intro allI impI ballI)
    fix a b assume a: "a < L" and b: "b \<in> set (refs ((s @ [ob]) ! a))"
    from a Ls have "(s @ [ob]) ! a = s ! a" by (simp add: nth_append)
    with a b old show "b < L" by simp
  qed
  have 3: "\<forall>a. L \<le> a \<and> a < length (s @ [ob]) \<longrightarrow>
             (\<forall>b\<in>set (refs ((s @ [ob]) ! a)). L \<le> b \<and> b < length (s @ [ob]))"
  proof (intro allI impI ballI)
    fix a b assume a: "L \<le> a \<and> a < length (s @ [ob])"
      and b: "b \<in> set (refs ((s @ [ob]) ! a))"
    show "L \<le> b \<and> b < length (s @ [ob])"
    proof (cases "a < length s")
      case True
      then have "(s @ [ob]) ! a = s ! a" by (simp add: nth_append)
      with a b True new [of a b] show ?thesis by simp
    next
      case False
      with a have "a = length s" by simp
      then have "(s @ [ob]) ! a = ob" by simp
      with b assms(2) show ?thesis by fastforce
    qed
  qed
  from 1 2 3 show ?thesis unfolding inv_store_def by blast
qed

lemma inv_store_append_floats:
  "inv_store L s \<Longrightarrow> inv_store L (s @ [Floats v])"
  by (rule inv_store_append) simp_all

lemma inv_store_append_list:
  "inv_store L s \<Longrightarrow> \<forall>b\<in>set its. L \<le> b \<and> b < length s \<Longrightarrow> inv_store L (s @ [PyListObj its])"
  by (rule inv_store_append) simp_all

lemma deepcopy_frame:
  "deepcopy n s x = Some (s', y) \<Longrightarrow> inv_store L s \<Longrightarrow> x < L \<Longrightarrow>
     (\<exists>ext. s' = s @ ext) \<and> inv_store L s' \<and> length s \<le> y \<and> y < length s' \<and>
     (\<forall>m. view m s' y = view m s x)"
  and deepcopy_items_frame:
  "deepcopy_items n s its = Some (s', its') \<Longrightarrow> inv_store L s \<Longrightarrow> \<forall>b\<in>set its. b < L \<Longrightarrow>
     (\<exists>ext. s' = s @ ext) \<and> inv_store L s' \<and>
     (\<forall>b\<in>set its'. length s \<le> b \<and> b < length s') \<and>
     (\<forall>m. map (\<lambda>b. view m s' b) its' = map (\<lambda>b. view m s b) its)"
proof (induction n s x and n s its arbitrary: s' y and s' its' rule: deepcopy_deepcopy_items.induct)
  case (1 s x)
  then show ?case by simp
next
  case (2 n s x)
  from "2.prems"(1) have xs: "x < length s" by (auto split: if_splits)
  show ?case
  proof (cases "s ! x")
    case (Floats v)
    with "2.prems"(1) xs have r: "s' = s @ [Floats v]" "y = length s" by auto
    have "\<And>m. view m s' y = view m s x"
    proof -
      fix m show "view m s' y = view m s x"
        using r Floats xs by (cases m) simp_all
    qed
    moreover from "2.prems"(2) have "inv_store L s'" unfolding r(1) by (rule inv_store_append_floats)
    ultimately show ?thesis using r by simp
  next
    case (PyListObj its)
    with "2.prems"(1) xs obtain s1 its' where
      c: "deepcopy_items n s its = Some (s1, its')"
      and r: "s' = s1 @ [PyListObj its']" "y = length s1"
      by (auto split: option.splits)
    from "2.prems"(2) have "\<forall>a<L. \<forall>b\<in>set (refs (s ! a)). b < L"
      unfolding inv_store_def by blast
    with "2.prems"(3) have "\<forall>b\<in>set (refs (s ! x)). b < L" by blast
    with PyListObj have old: "\<forall>b\<in>set its. b < L" by simp
    from xs have nx: "\<not> length s \<le> x" by simp
    note ih = "2.IH" [OF nx PyListObj c "2.prems"(2) old]
    from ih obtain ext where ext: "s1 = s @ ext" by blast
    from ih have i1: "inv_store L s1" by blast
    from ih have fresh: "\<forall>b\<in>set its'. length s \<le> b \<and> b < length s1" by blast
    from ih have vs: "\<And>m. map (\<lambda>b. view m s1 b) its' = map (\<lambda>b. view m s b) its" by blast
    from "2.prems"(2) have "L \<le> length s" unfolding inv_store_def by simp
    with fresh have "\<forall>b\<in>set its'. L \<le> b \<and> b < length s1" by auto
    with i1 have i2: "inv_store L s'" unfolding r by (rule inv_store_append_list)
    have "\<And>m. view m s' y = view m s x"
    proof -
      fix m show "view m s' y = view m s x"
      proof (cases m)
        case 0
        then show ?thesis by simp
      next
        case (Suc m')
        have "map (\<lambda>b. view m' s' b) its' = map (\<lambda>b. view m' s1 b) its'"
        proof (rule map_cong [OF refl])
          fix b assume "b \<in> set its'"
          with fresh have "b < length s1" by blast
          with i1 show "view m' s' b = view m' s1 b" unfolding r(1) by (rule view_append)
        qed
        with vs [of m'] have "map (\<lambda>b. view m' s' b) its' = map (\<lambda>b. view m' s b) its" by simp
        with Suc r PyListObj xs show ?thesis by simp
      qed
    qed
    with r ext i2 show ?thesis by auto
  qed
next
  case (3 n s)
  then show ?case by auto
next
  case (4 n s a rest)
  from "4.prems"(1) obtain s1 a' s2 rest' where
    c1: "deepcopy n s a = Some (s1, a')"
    and c2: "deepcopy_items n s1 rest = Some (s2, rest')"
    and r: "s' = s2" "its' = a' # rest'"
    by (auto split: option.splits)
  from "4.prems"(3) have aL: "a < L" and restL: "\<forall>b\<in>set rest. b < L" by simp_all
  note ih1 = "4.IH"(1) [OF c1 "4.prems"(2) aL]
  from ih1 obtain e1 where e1: "s1 = s @ e1" by blast
  from ih1 have i1: "inv_store L s1" and a': "length s \<le> a'" "a' < length s1"
    and v1: "\<And>m. view m s1 a' = view m s a" by blast+
  have x: "(s1, a') = (s1, a')" by simp
  note ih2 = "4.IH"(2) [OF c1 x c2 i1 restL]
  from ih2 obtain e2 where e2: "s2 = s1 @ e2" by blast
  from ih2 have i2: "inv_store L s2"
    and fr: "\<forall>b\<in>set rest'. length s1 \<le> b \<and> b < length s2"
    and v2: "\<And>m. map (\<lambda>b. view m s2 b) rest' = map (\<lambda>b. view m s1 b) rest" by blast+
  from "4.prems"(2) have Ls: "L \<le> length s" unfolding inv_store_def by simp
  have "\<And>m. map (\<lambda>b. view m s2 b) (a' # rest') = map (\<lambda>b. view m s b) (a # rest)"
  proof -
    fix m
    have "view m s2 a' = view m s1 a'" unfolding e2 using i1 a'(2) by (rule view_append)
    moreover have "map (\<lambda>b. view m s1 b) rest = map (\<lambda>b. view m s b) rest"
    proof (rule map_cong [OF refl])
      fix b assume "b \<in> set rest"
      with restL Ls have "b < length s" by fastforce
      with "4.prems"(2) show "view m s1 b = view m s b" unfolding e1 by (rule view_append)
    qed
    ultimately show "map (\<lambda>b. view m s2 b) (a' # rest') = map (\<lambda>b. view m s b) (a # rest)"
      using v1 [of m] v2 [of m] by simp
  qed
  moreover have "\<forall>b\<in>set (a' # rest'). length s \<le> b \<and> b < length s2"
    using a' fr e1 e2 by auto
  moreover have "\<exists>ext. s2 = s @ ext" using e1 e2 by simp
  ultimately show ?case using r i2 by blast
qed

lemma closed_store_inv: "closed_store s \<longleftrightarrow> inv_store (length s) s"
proof
  assume c: "closed_store s"
  have "\<forall>a<length s. \<forall>b\<in>set (refs (s ! a)). b < length s"
  proof (intro allI impI ballI)
    fix a b assume "a < length s" and b: "b \<in> set (refs (s ! a))"
    then have "s ! a \<in> set s" by simp
    with c b show "b < length s" unfolding closed_store_def by blast
  qed
  then show "inv_store (length s) s" unfolding inv_store_def by simp
next
  assume i: "inv_store (length s) s"
  show "closed_store s" unfolding closed_store_def
  proof (intro ballI)
    fix ob b assume "ob \<in> set s" and b: "b \<in> set (refs ob)"
    then obtain a where "a < length s" "s ! a = ob" by (auto simp: in_set_conv_nth)
    with i b show "b < length s" unfolding inv_store_def by blast
  qed
qed

lemma view_Some_valid: "view m s a = Some t \<Longrightarrow> a < length s"
  by (cases m) (auto split: if_splits)

lemma view_list_items:
  assumes "a < length s" and "s ! a = PyListObj its"
  shows "view (Suc n) s a = Some (ListT ts) \<longleftrightarrow> map (\<lambda>b. view n s b) its = map Some ts"
proof
  assume "view (Suc n) s a = Some (ListT ts)"
  with assms have n: "None \<notin> set (map (\<lambda>b. view n s b) its)"
    and t: "ts = map the (map (\<lambda>b. view n s b) its)"
    by (auto simp: Let_def split: if_splits)
  have "map (\<lambda>b. view n s b) its = map (\<lambda>b. Some (the (view n s b))) its"
  proof (rule map_cong [OF refl])
    fix b assume "b \<in> set its"
    with n have "view n s b \<noteq> None" by force
    then show "view n s b = Some (the (view n s b))" by simp
  qed
  with t show "map (\<lambda>b. view n s b) its = map Some ts" by (simp add: comp_def)
next
  assume m: "map (\<lambda>b. view n s b) its = map Some ts"
  then have "None \<notin> set (map (\<lambda>b. view n s b) its)" by auto
  moreover from m have "map the (map (\<lambda>b. view n s b) its) = ts" by (simp add: comp_def)
  ultimately show "view (Suc n) s a = Some (ListT ts)"
    using assms by (simp add: Let_def del: map_map)
qed

lemma deepcopy_succeeds:
  "view n s x \<noteq> None \<Longrightarrow> inv_store L s \<Longrightarrow> x < L \<Longrightarrow> deepcopy n s x \<noteq> None"
  and deepcopy_items_succeeds:
  "\<forall>b\<in>set its. view n s b \<noteq> None \<Longrightarrow> inv_store L s \<Longrightarrow> \<forall>b\<in>set its. b < L \<Longrightarrow>
   deepcopy_items n s its \<noteq> None"
proof (induction n s x and n s its rule: deepcopy_deepcopy_items.induct)
  case (1 s x)
  then show ?case by simp
next
  case (2 n s x)
  from "2.prems"(1) have xs: "x < length s" by (auto split: if_splits)
  then have nx: "\<not> length s \<le> x" by simp
  show ?case
  proof (cases "s ! x")
    case (Floats v)
    with xs show ?thesis by simp
  next
    case (PyListObj its)
    from "2.prems"(2) have "\<forall>a<L. \<forall>b\<in>set (refs (s ! a)). b < L"
      unfolding inv_store_def by blast
    with "2.prems"(3) have "\<forall>b\<in>set (refs (s ! x)). b < L" by blast
    with PyListObj have old: "\<forall>b\<in>set its. b < L" by simp
    from "2.prems"(1) PyListObj xs have "None \<notin> set (map (\<lambda>b. view n s b) its)"
      by (auto simp: Let_def split: if_splits)
    then have "\<forall>b\<in>set its. view n s b \<noteq> None" by force
    from "2.IH" [OF nx PyListObj this "2.prems"(2) old]
    obtain s1 its' where "deepcopy_items n s its = Some (s1, its')" by auto
    with PyListObj xs show ?thesis by simp
  qed
next
  case (3 n s)
  show ?case by simp
next
  case (4 n s a rest)
  from "4.prems"(1,3) have va: "view n s a \<noteq> None" and aL: "a < L" by simp_all
  from "4.IH"(1) [OF va "4.prems"(2) aL] obtain s1 a' where
    c1: "deepcopy n s a = Some (s1, a')" by auto
  note f = deepcopy_frame [OF c1 "4.prems"(2) aL]
  from f obtain ext where e: "s1 = s @ ext" by blast
  from f have i1: "inv_store L s1" by blast
  from "4.prems"(2) have Ls: "L \<le> length s" unfolding inv_store_def by simp
  have "\<forall>b\<in>set rest. view n s1 b \<noteq> None"
  proof
    fix b assume b: "b \<in> set rest"
    with "4.prems"(3) Ls have "b < length s" by fastforce
    with "4.prems"(2) have "view n s1 b = view n s b" unfolding e by (rule view_append)
    with b "4.prems"(1) show "view n s1 b \<noteq> None" by simp
  qed
  moreover from "4.prems"(3) have "\<forall>b\<in>set rest. b < L" by simp
  ultimately have "deepcopy_items n s1 rest \<noteq> None"
    using "4.IH"(2) [OF c1 refl] i1 by blast
  with c1 show ?case by auto
qed

lemma reach_fresh:
  "reach s y a \<Longrightarrow> inv_store L s \<Longrightarrow> L \<le> y \<Longrightarrow> L \<le> a"
proof (induction rule: reach.induct)
  case (reach_self s y)
  then show ?case by simp
next
  case (reach_item s y a b)
  from reach_item.IH reach_item.prems have "L \<le> a" by simp
  with reach_item.hyps(2,3) reach_item.prems(1) show ?case unfolding inv_store_def by blast
qed

lemma view_update_fresh:
  assumes "closed_store s" and "take (length s) s' = s" and "length s \<le> a" and "k < length s"
  shows "view m (s'[a := ob]) k = view m s k"
proof -
  from assms(1) have "\<forall>a<length s. \<forall>b\<in>set (refs (s ! a)). b < length s"
    unfolding closed_store_inv inv_store_def by blast
  moreover have "length s \<le> length s'"
  proof -
    from assms(2) have "length (take (length s) s') = length s" by simp
    then show ?thesis by simp
  qed
  moreover from assms(2,3) have "take (length s) (s'[a := ob]) = take (length s) s" by simp
  ultimately show ?thesis using assms(4) by (intro view_frame) simp_all
qed

lemma view_ListT_obj:
  assumes "view (Suc n) s a = Some (ListT ts)"
  shows "\<exists>its. a < length s \<and> s ! a = PyListObj its \<and> map (\<lambda>b. view n s b) its = map Some ts"
proof -
  from assms have a: "a < length s" by (rule view_Some_valid)
  show ?thesis
  proof (cases "s ! a")
    case (Floats v)
    with assms a show ?thesis by simp
  next
    case (PyListObj its)
    with assms a view_list_items [OF a PyListObj, of n ts] show ?thesis by blast
  qed
qed

lemma view_update_unreferenced:
  assumes "\<forall>a<length s. P \<notin> set (refs (s ! a))"
  shows "b \<noteq> P \<Longrightarrow> view m (s[P := ob]) b = view m s b"
proof (induction m arbitrary: b)
  case 0
  show ?case by simp
next
  case (Suc m)
  show ?case
  proof (cases "b < length s")
    case False
    then show ?thesis by simp
  next
    case True
    from Suc.prems have e: "s[P := ob] ! b = s ! b" by simp
    show ?thesis
    proof (cases "s ! b")
      case (Floats v)
      with e True show ?thesis by simp
    next
      case (PyListObj its)
      have "map (\<lambda>c. view m (s[P := ob]) c) its = map (\<lambda>c. view m s c) its"
      proof (rule map_cong [OF refl])
        fix c assume "c \<in> set its"
        with assms True PyListObj have "c \<noteq> P" by fastforce
        then show "view m (s[P := ob]) c = view m s c" by (rule Suc.IH)
      qed
      with e True PyListObj show ?thesis by simp
    qed
  qed
qed

lemma inv_store_update:
  assumes "inv_store L s" and "L \<le> P" and "P < length s"
    and "\<forall>b\<in>set (refs ob). L \<le> b \<and> b < length s"
  shows "inv_store L (s[P := ob])"
proof -
  from assms(1) have Ls: "L \<le> length s"
    and old: "\<And>a b. a < L \<Longrightarrow> b \<in> set (refs (s ! a)) \<Longrightarrow> b < L"
    and new: "\<And>a b. L \<le> a \<Longrightarrow> a < length s \<Longrightarrow> b \<in> set (refs (s ! a)) \<Longrightarrow>
                L \<le> b \<and> b < length s"
    unfolding inv_store_def by blast+
  have 1: "L \<le> length (s[P := ob])" using Ls by simp
  have 2: "\<forall>a<L. \<forall>b\<in>set (refs (s[P := ob] ! a)). b < L"
  proof (intro allI impI ballI)
    fix a b assume a: "a < L" and b: "b \<in> set (refs (s[P := ob] ! a))"
    from a assms(2) have "s[P := ob] ! a = s ! a" by simp
    with a b old show "b < L" by simp
  qed
  have 3: "\<forall>a. L \<le> a \<and> a < length (s[P := ob]) \<longrightarrow>
             (\<forall>b\<in>set (refs (s[P := ob] ! a)). L \<le> b \<and> b < length (s[P := ob]))"
  proof (intro allI impI ballI)
    fix a b assume a: "L \<le> a \<and> a < length (s[P := ob])"
      and b: "b \<in> set (refs (s[P := ob] ! a))"
    show "L \<le> b \<and> b < length (s[P := ob])"
    proof (cases "a = P")
      case True
      with assms(3) have "s[P := ob] ! a = ob" by simp
      with b assms(4) show ?thesis by fastforce
    next
      case False
      then have "s[P := ob] ! a = s ! a" by simp
      with a b new [of a b] show ?thesis by simp
    qed
  qed
  from 1 2 3 show ?thesis unfolding inv_store_def by blast
qed

lemma CAMTask_get_keypoints_store_copy:
  assumes "closed_store s" and "view limit s k = Some t"
  shows "\<exists>s' y. CAMTask_get_keypoints_store limit s k = Some (s', y) \<and>
           take (length s) s' = s \<and> view limit s' y = Some t \<and>
           (\<forall>a. reach s' y a \<longrightarrow> length s \<le> a \<and> (\<forall>ob. view limit (s'[a := ob]) k = Some t))"
proof -
  from assms(1) have i: "inv_store (length s) s" by (simp add: closed_store_inv)
  from assms(2) have k: "k < length s" by (rule view_Some_valid)
  from assms(2) have "view limit s k \<noteq> None" by simp
  from deepcopy_succeeds [OF this i k] obtain s' y where
    c: "deepcopy limit s k = Some (s', y)" by auto
  note f = deepcopy_frame [OF c i k]
  from f obtain ext where e: "s' = s @ ext" by blast
  then have tk: "take (length s) s' = s" by simp
  from f have i': "inv_store (length s) s'" and y: "length s \<le> y" by blast+
  from f assms(2) have v: "view limit s' y = Some t" by simp
  have "\<forall>a. reach s' y a \<longrightarrow> length s \<le> a \<and> (\<forall>ob. view limit (s'[a := ob]) k = Some t)"
  proof (intro allI impI conjI)
    fix a assume "reach s' y a"
    from reach_fresh [OF this i' y] show a: "length s \<le> a" .
    fix ob
    from view_update_fresh [OF assms(1) tk a k, of limit ob] assms(2)
    show "view limit (s'[a := ob]) k = Some t" by simp
  qed
  with c tk v show ?thesis unfolding CAMTask_get_keypoints_store_def by blast
qed

lemma extend_loop_works:
  assumes "inv_store L s" and "L \<le> P" and "P < length s"
    and "\<forall>a<length s. P \<notin> set (refs (s ! a))"
    and "s ! P = PyListObj ps"
    and "map (\<lambda>b. view n s b) ps = map Some acc"
    and "\<forall>k\<in>set ks. k < L \<and> view (Suc n) s k = Some (ListT (ts k))"
  shows "\<exists>s' ps'. extend_loop (Suc n) s P ks = Some s' \<and> take L s' = take L s \<and>
           inv_store L s' \<and> P < length s' \<and> s' ! P = PyListObj ps' \<and>
           map (\<lambda>b. view n s' b) ps' = map Some (acc @ concat (map ts ks))"
  using assms
proof (induction ks arbitrary: s ps acc)
  case Nil
  then show ?case by simp
next
  case (Cons k ks)
  note inv = Cons.prems(1) and LP = Cons.prems(2) and Ps = Cons.prems(3)
    and noref = Cons.prems(4) and sP = Cons.prems(5) and vps = Cons.prems(6)
  from Cons.prems(7) have kL: "k < L" and vk: "view (Suc n) s k = Some (ListT (ts k))"
    and rest: "\<forall>k'\<in>set ks. k' < L \<and> view (Suc n) s k' = Some (ListT (ts k'))"
    by simp_all
  from inv have Ls: "L \<le> length s" unfolding inv_store_def by simp
  have cl: "inv_store (length s) s"
  proof -
    have "\<forall>a<length s. \<forall>b\<in>set (refs (s ! a)). b < length s"
      using inv inv_store_closed by blast
    then show ?thesis unfolding inv_store_def by simp
  qed
  from vk have "view (Suc n) s k \<noteq> None" by simp
  from deepcopy_succeeds [OF this inv kL] obtain s1 y where
    c: "deepcopy (Suc n) s k = Some (s1, y)" by auto
  note f = deepcopy_frame [OF c inv kL]
  from f obtain ext where e: "s1 = s @ ext" by blast
  from f have i1: "inv_store L s1" and ys: "length s \<le> y" and y1: "y < length s1" by blast+
  from f vk have vy: "view (Suc n) s1 y = Some (ListT (ts k))" by simp
  from kL Ls have ks: "k < length s" by simp
  from deepcopy_frame [OF c cl ks] have c1: "inv_store (length s) s1" by blast
  from view_ListT_obj [OF vy] obtain ys' where
    sy: "s1 ! y = PyListObj ys'" and vys: "map (\<lambda>b. view n s1 b) ys' = map Some (ts k)"
    by blast
  from e Ps sP have s1P: "s1 ! P = PyListObj ps" by (simp add: nth_append)
  from e have len1: "length s \<le> length s1" by simp
  have fresh_refs: "\<And>a b. length s \<le> a \<Longrightarrow> a < length s1 \<Longrightarrow> b \<in> set (refs (s1 ! a)) \<Longrightarrow>
                      length s \<le> b \<and> b < length s1"
    using c1 unfolding inv_store_def by blast
  have ys_fresh: "\<forall>b\<in>set ys'. length s \<le> b \<and> b < length s1"
    using fresh_refs [OF ys y1] sy by simp
  have noref1: "\<forall>a<length s1. P \<notin> set (refs (s1 ! a))"
  proof (intro allI impI)
    fix a assume a: "a < length s1"
    show "P \<notin> set (refs (s1 ! a))"
    proof (cases "a < length s")
      case True
      with e have "s1 ! a = s ! a" by (simp add: nth_append)
      with noref True show ?thesis by simp
    next
      case False
      then have "length s \<le> a" by simp
      from fresh_refs [OF this a] Ps show ?thesis by fastforce
    qed
  qed
  have ps_old: "\<forall>b\<in>set ps. L \<le> b \<and> b < length s"
  proof
    fix b assume "b \<in> set ps"
    with sP have "b \<in> set (refs (s ! P))" by simp
    with inv LP Ps show "L \<le> b \<and> b < length s" unfolding inv_store_def by blast
  qed
  have ps_notP: "\<forall>b\<in>set ps. b \<noteq> P"
  proof
    fix b assume "b \<in> set ps"
    with sP have "b \<in> set (refs (s ! P))" by simp
    with noref Ps show "b \<noteq> P" by blast
  qed
  let ?s2 = "s1[P := PyListObj (ps @ ys')]"
  have step: "extend_loop (Suc n) s P (k # ks) = extend_loop (Suc n) ?s2 P ks"
    using c s1P sy by (simp add: CAMTask_get_keypoints_store_def del: deepcopy.simps)
  have P1: "P < length s1" using Ps len1 by simp
  have i2: "inv_store L ?s2"
  proof (rule inv_store_update [OF i1 LP P1])
    show "\<forall>b\<in>set (refs (PyListObj (ps @ ys'))). L \<le> b \<and> b < length s1"
      using ps_old ys_fresh Ls len1 by fastforce
  qed
  have noref2: "\<forall>a<length ?s2. P \<notin> set (refs (?s2 ! a))"
  proof (intro allI impI)
    fix a assume a: "a < length ?s2"
    show "P \<notin> set (refs (?s2 ! a))"
    proof (cases "a = P")
      case True
      with P1 have "?s2 ! a = PyListObj (ps @ ys')" by simp
      moreover from ys_fresh Ps have "\<forall>b\<in>set ys'. b \<noteq> P" by fastforce
      ultimately show ?thesis using ps_notP by auto
    next
      case False
      then have "?s2 ! a = s1 ! a" by simp
      with noref1 a show ?thesis by simp
    qed
  qed
  have v2: "map (\<lambda>b. view n ?s2 b) (ps @ ys') = map Some (acc @ ts k)"
  proof -
    have "map (\<lambda>b. view n ?s2 b) ps = map (\<lambda>b. view n s b) ps"
    proof (rule map_cong [OF refl])
      fix b assume b: "b \<in> set ps"
      with ps_notP have "b \<noteq> P" by blast
      then have "view n ?s2 b = view n s1 b" by (rule view_update_unreferenced [OF noref1])
      also from b ps_old have "b < length s" by blast
      with inv have "view n s1 b = view n s b" unfolding e by (rule view_append)
      finally show "view n ?s2 b = view n s b" .
    qed
    moreover have "map (\<lambda>b. view n ?s2 b) ys' = map (\<lambda>b. view n s1 b) ys'"
    proof (rule map_cong [OF refl])
      fix b assume "b \<in> set ys'"
      with ys_fresh Ps have "b \<noteq> P" by fastforce
      then show "view n ?s2 b = view n s1 b" by (rule view_update_unreferenced [OF noref1])
    qed
    ultimately show ?thesis using vps vys by simp
  qed
  have tk2: "take L ?s2 = take L s"
  proof -
    from LP have "take L ?s2 = take L s1" by simp
    also from Ls have "take L s1 = take L s" unfolding e by simp
    finally show ?thesis .
  qed
  have rest2: "\<forall>k'\<in>set ks. k' < L \<and> view (Suc n) ?s2 k' = Some (ListT (ts k'))"
  proof
    fix k' assume k': "k' \<in> set ks"
    with rest have k'L: "k' < L" and vk': "view (Suc n) s k' = Some (ListT (ts k'))" by simp_all
    from inv have old: "\<forall>a<L. \<forall>b\<in>set (refs (s ! a)). b < L" unfolding inv_store_def by blast
    from i2 have "L \<le> length ?s2" unfolding inv_store_def by blast
    from view_frame [OF old Ls this tk2 k'L, of "Suc n"] vk' k'L
    show "k' < L \<and> view (Suc n) ?s2 k' = Some (ListT (ts k'))" by simp
  qed
  from P1 have P2: "P < length ?s2" by simp
  from P1 have s2P: "?s2 ! P = PyListObj (ps @ ys')" by simp
  from Cons.IH [OF i2 LP P2 noref2 s2P v2 rest2] obtain s' ps' where
    r: "extend_loop (Suc n) ?s2 P ks = Some s'" "take L s' = take L ?s2" "inv_store L s'"
       "P < length s'" "s' ! P = PyListObj ps'"
       "map (\<lambda>b. view n s' b) ps' = map Some ((acc @ ts k) @ concat (map ts ks))"
    by blast
  from r(1) step have "extend_loop (Suc n) s P (k # ks) = Some s'" by simp
  moreover from r(2) tk2 have "take L s' = take L s" by simp
  moreover from r(6) have "map (\<lambda>b. view n s' b) ps' = map Some (acc @ concat (map ts (k # ks)))"
    by simp
  ultimately show ?case using r(3,4,5) by blast
qed

lemma MultiContourTrace_get_keypoints_store_copy:
  assumes "closed_store s" and "0 < limit"
    and "\<forall>k\<in>set ks. view limit s k = Some (ListT (ts k))"
  shows "\<exists>s' y. MultiContourTrace_get_keypoints_store limit s ks = Some (s', y) \<and>
           take (length s) s' = s \<and>
           view limit s' y = Some (ListT (concat (map ts ks))) \<and>
           (\<forall>a. reach s' y a \<longrightarrow> length s \<le> a \<and>
              (\<forall>ob. \<forall>k\<in>set ks. view limit (s'[a := ob]) k = Some (ListT (ts k))))"
proof -
  from assms(2) obtain n where n: "limit = Suc n" by (cases limit) simp_all
  let ?P = "length s"
  let ?s0 = "s @ [PyListObj []]"
  from assms(1) have i: "inv_store ?P s" by (simp add: closed_store_inv)
  then have i0: "inv_store ?P ?s0" by (rule inv_store_append) simp
  have P0: "?P < length ?s0" by simp
  have noref: "\<forall>a<length ?s0. ?P \<notin> set (refs (?s0 ! a))"
  proof (intro allI impI)
    fix a assume a: "a < length ?s0"
    show "?P \<notin> set (refs (?s0 ! a))"
    proof (cases "a < length s")
      case True
      then have e: "?s0 ! a = s ! a" by (simp add: nth_append)
      from i True have "\<forall>b\<in>set (refs (s ! a)). b < length s" unfolding inv_store_def by blast
      with e show ?thesis by fastforce
    next
      case False
      with a have "a = length s" by simp
      then show ?thesis by simp
    qed
  qed
  have sP: "?s0 ! ?P = PyListObj []" by simp
  have v0: "map (\<lambda>b. view n ?s0 b) [] = map Some []" by simp
  have ks: "\<forall>k\<in>set ks. k < ?P \<and> view (Suc n) ?s0 k = Some (ListT (ts k))"
  proof
    fix k assume "k \<in> set ks"
    with assms(3) n have v: "view (Suc n) s k = Some (ListT (ts k))" by simp
    then have k: "k < length s" by (rule view_Some_valid)
    from view_append [OF i k, of "Suc n" "[PyListObj []]"] v k
    show "k < ?P \<and> view (Suc n) ?s0 k = Some (ListT (ts k))" by simp
  qed
  from extend_loop_works [OF i0 order_refl P0 noref sP v0 ks] obtain s' ps' where
    r: "extend_loop (Suc n) ?s0 ?P ks = Some s'" "take ?P s' = take ?P ?s0" "inv_store ?P s'"
       "?P < length s'" "s' ! ?P = PyListObj ps'"
       "map (\<lambda>b. view n s' b) ps' = map Some ([] @ concat (map ts ks))"
    by blast
  from r(1) n have g: "MultiContourTrace_get_keypoints_store limit s ks = Some (s', ?P)"
    by (simp add: MultiContourTrace_get_keypoints_store_def)
  from r(2) have tk: "take ?P s' = s" by simp
  from r(6) have "map (\<lambda>b. view n s' b) ps' = map Some (concat (map ts ks))" by simp
  with view_list_items [OF r(4,5), of n "concat (map ts ks)"] n
  have v: "view limit s' ?P = Some (ListT (concat (map ts ks)))" by simp
  have "\<forall>a. reach s' ?P a \<longrightarrow> length s \<le> a \<and>
              (\<forall>ob. \<forall>k\<in>set ks. view limit (s'[a := ob]) k = Some (ListT (ts k)))"
  proof (intro allI impI conjI ballI)
    fix a assume "reach s' ?P a"
    from reach_fresh [OF this r(3) order_refl] show a: "length s \<le> a" .
    fix ob k assume "k \<in> set ks"
    with assms(3) have vk: "view limit s k = Some (ListT (ts k))" by simp
    then have k: "k < length s" by (rule view_Some_valid)
    from view_update_fresh [OF assms(1) tk a k, of limit ob] vk
    show "view limit (s'[a := ob]) k = Some (ListT (ts k))" by simp
  qed
  with g tk v show ?thesis by blast
qed

lemma closed_demo_store: "closed_store demo_store"
  by (simp add: closed_store_def demo_store_def)

lemma view_demo_store: "view 3 demo_store 3 = Some demo_tree"
  by (simp add: demo_store_def demo_tree_def eval_nat_numeral)

lemma CAMTask_get_keypoints_store_demo:
  "CAMTask_get_keypoints_store 3 demo_store 3 =
   Some (demo_store @ [Floats (1, 0, 0), Floats (0, 0, 0.5), PyListObj [4, 5], PyListObj [6]], 7)"
  by (simp add: CAMTask_get_keypoints_store_def demo_store_def eval_nat_numeral)

lemma MultiContourTrace_get_keypoints_store_demo:
  "MultiContourTrace_get_keypoints_store 3 demo_store [3, 3] =
   Some (demo_store @
     [PyListObj [7, 11],
      Floats (1, 0, 0), Floats (0, 0, 0.5), PyListObj [5, 6], PyListObj [7],
      Floats (1, 0, 0), Floats (0, 0, 0.5), PyListObj [9, 10], PyListObj [11]], 4)"
  by (simp add: MultiContourTrace_get_keypoints_store_def CAMTask_get_keypoints_store_def
      demo_store_def eval_nat_numeral)

text \<open>
Claim C9. In a store whose references are all valid, \<^verbatim>\<open>get_keypoints\<close> of a task whose
  keypoints can be read within the recursion depth returns; it leaves every object that was
  in the store as it was; the object it returns reads as the task's keypoints do (for a
  \<^verbatim>\<open>MultiContourTrace\<close>, as the keypoints of the sub-tasks one after the other); and every
  object that the returned object refers to, directly or not, is a new one, so that
  replacing it by any object leaves the keypoints of the task as they were.
\<close>

theorem get_keypoints_deep_copy:
  "closed_store s \<longrightarrow>
     (view limit s k = Some t \<longrightarrow>
        (\<exists>s' y. CAMTask_get_keypoints_store limit s k = Some (s', y) \<and>
           take (length s) s' = s \<and> view limit s' y = Some t \<and>
           (\<forall>a. reach s' y a \<longrightarrow> length s \<le> a \<and>
              (\<forall>ob. view limit (s'[a := ob]) k = Some t)))) \<and>
     (0 < limit \<and> (\<forall>k\<in>set ks. view limit s k = Some (ListT (ts k))) \<longrightarrow>
        (\<exists>s' y. MultiContourTrace_get_keypoints_store limit s ks = Some (s', y) \<and>
           take (length s) s' = s \<and>
           view limit s' y = Some (ListT (concat (map ts ks))) \<and>
           (\<forall>a. reach s' y a \<longrightarrow> length s \<le> a \<and>
              (\<forall>ob. \<forall>k\<in>set ks. view limit (s'[a := ob]) k = Some (ListT (ts k))))))"
  using CAMTask_get_keypoints_store_copy [of s limit k t]
    MultiContourTrace_get_keypoints_store_copy [of s limit ks ts]
  by blast

theorem get_keypoints_deep_copy_witness:
  "(\<exists>s' y. CAMTask_get_keypoints_store 3 demo_store 3 = Some (s', y) \<and>
      take (length demo_store) s' = demo_store \<and> view 3 s' y = Some demo_tree \<and>
      view 3 (s'[y := PyListObj []]) 3 = Some demo_tree) \<and>
   (\<exists>s' y. MultiContourTrace_get_keypoints_store 3 demo_store [3] = Some (s', y) \<and>
      take (length demo_store) s' = demo_store \<and> view 3 s' y = Some demo_tree \<and>
      view 3 (s'[y := PyListObj []]) 3 = Some demo_tree)"
proof -
  let ?ts = "\<lambda>k::addr. [ListT [FloatsT (1, 0, 0), FloatsT (0, 0, 0.5)]]"
  have t: "demo_tree = ListT (concat (map ?ts [3]))" by (simp add: demo_tree_def)
  have p: "(0::nat) < 3" by simp
  have v: "\<forall>k\<in>set [3]. view 3 demo_store k = Some (ListT (?ts k))"
    using view_demo_store by (simp add: demo_tree_def)
  note c9 = get_keypoints_deep_copy [of demo_store 3 3 demo_tree "[3]" ?ts]
  from c9 closed_demo_store view_demo_store
  obtain s' y where
    r: "CAMTask_get_keypoints_store 3 demo_store 3 = Some (s', y)"
       "take (length demo_store) s' = demo_store" "view 3 s' y = Some demo_tree"
       "\<forall>a. reach s' y a \<longrightarrow> length demo_store \<le> a \<and>
              (\<forall>ob. view 3 (s'[a := ob]) 3 = Some demo_tree)"
    by blast
  have "reach s' y y" by (rule reach_self)
  with r(4) have "view 3 (s'[y := PyListObj []]) 3 = Some demo_tree" by blast
  with r(1,2,3) have first: "\<exists>s' y. CAMTask_get_keypoints_store 3 demo_store 3 = Some (s', y) \<and>
      take (length demo_store) s' = demo_store \<and> view 3 s' y = Some demo_tree \<and>
      view 3 (s'[y := PyListObj []]) 3 = Some demo_tree" by blast
  from c9 closed_demo_store p v
  obtain s2 y2 where
    m: "MultiContourTrace_get_keypoints_store 3 demo_store [3] = Some (s2, y2)"
       "take (length demo_store) s2 = demo_store"
       "view 3 s2 y2 = Some (ListT (concat (map ?ts [3])))"
       "\<forall>a. reach s2 y2 a \<longrightarrow> length demo_store \<le> a \<and>
              (\<forall>ob. \<forall>k\<in>set [3]. view 3 (s2[a := ob]) k = Some (ListT (?ts k)))"
    by blast
  have "reach s2 y2 y2" by (rule reach_self)
  with m(4) have "\<forall>k\<in>set [3]. view 3 (s2[y2 := PyListObj []]) k = Some (ListT (?ts k))"
    by blast
  then have "view 3 (s2[y2 := PyListObj []]) 3 = Some demo_tree" by (simp add: demo_tree_def)
  with m(1,2,3) t have "\<exists>s' y. MultiContourTrace_get_keypoints_store 3 demo_store [3] = Some (s', y) \<and>
      take (length demo_store) s' = demo_store \<and> view 3 s' y = Some demo_tree \<and>
      view 3 (s'[y := PyListObj []]) 3 = Some demo_tree" by auto
  with first show ?thesis by blast
qed

end
